theory Spec2Isabelle
  imports Complex_Main
begin

section \<open>The PDF viewer component of \<^verbatim>\<open>src/app/page.tsx\<close>\<close>

text \<open>
  The file holds the component \<^verbatim>\<open>PDFViewer\<close>; the development below embeds its last
  version (the one with per-page notes). Every \<^verbatim>\<open>useState\<close> cell and every ref
  the handlers read is a field of one record, and every handler is a function from the state
  before the event to the state after it. JavaScript numbers are modelled by \<open>int\<close> where
  the code counts pages and by \<open>real\<close> where it measures (scale, pan offset, pixel
  sizes). The quotients of \<open>fitToPage\<close> are rounded to IEEE doubles by \<open>to_double\<close>;
  the steps of \<open>zoomIn\<close> and \<open>zoomOut\<close> are added exactly. Strings are \<open>string\<close>, and
  \<open>length\<close> stands for the \<^verbatim>\<open>.length\<close> of the source.
\<close>

subsection \<open>Values of the environment\<close>

text \<open>
  A value caught by a \<^verbatim>\<open>catch\<close> clause: an \<^verbatim>\<open>Error\<close> instance with its
  \<^verbatim>\<open>name\<close> and \<^verbatim>\<open>message\<close>, or any other thrown value.
\<close>

datatype thrown = JsError string string | JsOther

text \<open>A \<^verbatim>\<open>File\<close> of the upload input: its \<^verbatim>\<open>name\<close> and MIME \<^verbatim>\<open>type\<close>.\<close>

record js_file =
  file_name :: string
  file_type :: string

text \<open>
  The document handle of the PDF library (\<^verbatim>\<open>PDFDocumentProxy\<close>), as far as the
  component uses it: the page count, and for every page number the outcome of
  \<^verbatim>\<open>getPage(n)\<close> followed by \<^verbatim>\<open>getViewport({scale: 1.0})\<close>, which is either a
  rejection or the natural width and height of the page. The library reports positive
  page sizes; the quotients of \<open>fitToPage\<close> are only meaningful for those.
\<close>

record pdf_doc =
  doc_numPages :: int
  doc_getPage :: "int \<Rightarrow> thrown + real \<times> real"

datatype load_source = SourceDefault | SourceFile

text \<open>
  The render task kept in \<^verbatim>\<open>renderTaskRef\<close>, with the page number the effect
  attaches to it (\<^verbatim>\<open>RenderTask & { pageNumber?: number }\<close>).
\<close>

datatype promise_state = Pending | Fulfilled | Rejected thrown

record render_task =
  task_promise :: promise_state
  pageNumber :: "int option"

subsection \<open>Doubles\<close>

text \<open>
  The value of a JavaScript division is the quotient rounded to the nearest IEEE double,
  ties to the even significand. \<open>to_double\<close> is that rounding on the reals: a double is
  an integer of at most 53 bits times a power of two that is at least \<open>2 ^ -1074\<close>, so
  the unit of rounding for \<open>x\<close> is found from the number of bits of the integer part of
  \<open>\<bar>x\<bar> * 2 ^ 1074\<close>. Overflow to \<^verbatim>\<open>Infinity\<close> and division by zero (\<^verbatim>\<open>Infinity\<close> or
  \<^verbatim>\<open>NaN\<close> in the source) have no counterpart in the reals and are not modelled.
\<close>

definition round_even :: "real \<Rightarrow> int" where
  "round_even x =
     (let f = \<lfloor>x\<rfloor>; d = x - of_int f
      in if d < 1 / 2 then f else if d > 1 / 2 then f + 1 else if even f then f else f + 1)"

fun bits :: "nat \<Rightarrow> nat" where
  "bits n = (if n = 0 then 0 else Suc (bits (n div 2)))"

declare bits.simps [simp del]

definition denorm_exp :: nat where
  "denorm_exp = 1074"

definition to_double :: "real \<Rightarrow> real" where
  "to_double x =
     (let a = \<bar>x\<bar> * 2 ^ denorm_exp;
          k = bits (nat \<lfloor>a\<rfloor>) - 53;
          n = round_even (a / 2 ^ k)
      in sgn x * (of_int n * 2 ^ k / 2 ^ denorm_exp))"

subsection \<open>Structured notes\<close>

text \<open>
  \<^verbatim>\<open>PageNote\<close> and \<^verbatim>\<open>DocumentNotes\<close>. The optional \<^verbatim>\<open>layout\<close> field of a
  page note is never read or written by the component and is left out; the nesting
  \<^verbatim>\<open>document.pages\<close>, \<^verbatim>\<open>document.metadata.total_pages\<close> is flattened to two fields.
\<close>

record PageNote =
  number :: int
  note_text :: string

record DocumentNotes =
  pages :: "PageNote list"
  total_pages :: int

text \<open>
  \<^verbatim>\<open>JSON.parse\<close> and \<^verbatim>\<open>JSON.stringify\<close> belong to the language, not to the
  repository: they are parameters of the model. Parsing a stored note either throws, or
  gives a value that has no \<^verbatim>\<open>document.pages\<close> array (every property access of the
  component on it fails), or gives a value of the declared type \<^verbatim>\<open>DocumentNotes\<close>.
\<close>

datatype parsed = Throws | NotDocument | Document DocumentNotes

record json_codec =
  JSON_parse :: "string \<Rightarrow> parsed"
  JSON_stringify :: "DocumentNotes \<Rightarrow> string"

subsection \<open>Component state\<close>

record viewer_state =
  isLoading :: bool
  error :: "string option"
  scale :: real
  pageNum :: int
  numPages :: "int option"
  pdfDoc :: "pdf_doc option"
  isPanning :: bool
  panPosition :: "real \<times> real"
  startPanPos :: "real \<times> real"
  pdfFile :: "js_file option"
  fileName :: string
  isPageRendering :: bool
  pdfLoadSource :: "load_source option"
  isEditingPage :: bool
  pageInputValue :: string
  pageNotes :: "int \<rightharpoonup> string"
  currentNote :: string
  renderTaskRef :: "render_task option"
  canvasRef :: "bool option"
  containerRef :: "(real \<times> real) option"
  sessionStorage :: "string \<rightharpoonup> string"

text \<open>
  \<open>canvasRef\<close> is \<open>None\<close> while the canvas is not mounted and \<open>Some b\<close> otherwise,
  \<open>b\<close> telling whether \<^verbatim>\<open>getContext('2d')\<close> gives a context. \<open>containerRef\<close> holds
  \<^verbatim>\<open>clientWidth\<close> and \<^verbatim>\<open>clientHeight\<close> of the mounted container.
  The cell \<^verbatim>\<open>notes\<close> (of type \<^verbatim>\<open>PageNotes\<close>) is the field \<open>pageNotes\<close>.
  The initial values are the arguments of the \<^verbatim>\<open>useState\<close> and \<^verbatim>\<open>useRef\<close> calls.
\<close>

definition initial_state :: viewer_state where
  "initial_state =
     \<lparr> isLoading = True, error = None, scale = 1.0, pageNum = 1, numPages = None,
       pdfDoc = None, isPanning = False, panPosition = (0, 0), startPanPos = (0, 0),
       pdfFile = None, fileName = ''No file selected'', isPageRendering = False,
       pdfLoadSource = None, isEditingPage = False, pageInputValue = '''',
       pageNotes = Map.empty, currentNote = '''', renderTaskRef = None, canvasRef = None,
       containerRef = None, sessionStorage = Map.empty \<rparr>"

definition MAX_NOTE_LENGTH :: nat where
  "MAX_NOTE_LENGTH = 10000"

text \<open>\<^verbatim>\<open>numPages || 1\<close>: \<^verbatim>\<open>null\<close> and \<^verbatim>\<open>0\<close> are falsy.\<close>

definition numPagesOr1 :: "viewer_state \<Rightarrow> int" where
  "numPagesOr1 s = (case numPages s of None \<Rightarrow> 1 | Some n \<Rightarrow> if n = 0 then 1 else n)"

subsection \<open>Notes\<close>

text \<open>
  \<^verbatim>\<open>getEmptyNotes(totalPages, specificPage?)\<close>: one empty page note for a truthy
  \<^verbatim>\<open>specificPage\<close>, otherwise one for each of the pages \<open>1 .. totalPages\<close>.
\<close>

definition getEmptyNotes :: "int \<Rightarrow> int option \<Rightarrow> DocumentNotes" where
  "getEmptyNotes totalPages specificPage =
     \<lparr> pages =
         (case specificPage of
            Some p \<Rightarrow>
              if p \<noteq> 0 then [\<lparr> number = p, note_text = '''' \<rparr>]
              else map (\<lambda>i. \<lparr> number = i, note_text = '''' \<rparr>) [1 .. totalPages]
          | None \<Rightarrow> map (\<lambda>i. \<lparr> number = i, note_text = '''' \<rparr>) [1 .. totalPages]),
       total_pages = totalPages \<rparr>"

text \<open>
  \<^verbatim>\<open>findIndex\<close> followed by the assignment to \<^verbatim>\<open>pages[pageIndex].text\<close>, or the
  \<^verbatim>\<open>push\<close> of a new page note when no page has the number.
\<close>

fun setPageText :: "int \<Rightarrow> string \<Rightarrow> PageNote list \<Rightarrow> PageNote list" where
  "setPageText n newText [] = [\<lparr> number = n, note_text = newText \<rparr>]"
| "setPageText n newText (p # ps) =
     (if number p = n then p\<lparr> note_text := newText \<rparr> # ps
      else p # setPageText n newText ps)"

text \<open>
  \<^verbatim>\<open>updateNoteJson(newText)\<close>. The stored note of the current page is used when it
  is truthy (present and not the empty string) and parses; a parse error gives the empty
  structure instead, and a failing property access is caught by the outer \<^verbatim>\<open>catch\<close>,
  which returns the bare text.
\<close>

definition updateNoteJson :: "json_codec \<Rightarrow> viewer_state \<Rightarrow> string \<Rightarrow> string" where
  "updateNoteJson J s newText =
     (let existing =
            (case pageNotes s (pageNum s) of
               None \<Rightarrow> Document (getEmptyNotes (numPagesOr1 s) None)
             | Some str \<Rightarrow>
                 if str = '''' then Document (getEmptyNotes (numPagesOr1 s) None)
                 else (case JSON_parse J str of
                         Throws \<Rightarrow> Document (getEmptyNotes (numPagesOr1 s) None)
                       | other \<Rightarrow> other))
      in case existing of
           Document noteObj \<Rightarrow>
             JSON_stringify J
               \<lparr> pages = setPageText (pageNum s) newText (pages noteObj),
                 total_pages = max (total_pages noteObj) (numPagesOr1 s) \<rparr>
         | _ \<Rightarrow> newText)"

text \<open>
  One run of the effect with dependencies \<^verbatim>\<open>[pageNum, notes, numPages]\<close>, which derives
  the displayed note from the stored one and creates the stored note of a page on its first
  visit. \<open>pageChangeEffect_absent\<close> is the part after the first \<^verbatim>\<open>if\<close>, taken when
  \<^verbatim>\<open>notes[pageNum]\<close> is falsy (missing, or the empty string).
\<close>

definition pageChangeEffect_absent :: "json_codec \<Rightarrow> viewer_state \<Rightarrow> viewer_state" where
  "pageChangeEffect_absent J s =
     (if (case numPages s of None \<Rightarrow> False | Some n \<Rightarrow> n \<noteq> 0 \<and> n > 0) then
        (case pages (getEmptyNotes (numPagesOr1 s) (Some (pageNum s))) of
           [] \<Rightarrow> s\<lparr> currentNote := [] \<rparr>
         | pageNote # _ \<Rightarrow>
             s\<lparr> currentNote := [],
                pageNotes := (pageNotes s)(pageNum s \<mapsto> updateNoteJson J s []) \<rparr>)
      else s\<lparr> currentNote := [] \<rparr>)"

definition pageChangeEffect :: "json_codec \<Rightarrow> viewer_state \<Rightarrow> viewer_state" where
  "pageChangeEffect J s =
     (case pageNotes s (pageNum s) of
        None \<Rightarrow> pageChangeEffect_absent J s
      | Some str \<Rightarrow>
          if str = [] then pageChangeEffect_absent J s
          else (case JSON_parse J str of
                  Document noteObj \<Rightarrow>
                    (case find (\<lambda>p. number p = pageNum s) (pages noteObj) of
                       Some pageNote \<Rightarrow> s\<lparr> currentNote := note_text pageNote \<rparr>
                     | None \<Rightarrow> s\<lparr> currentNote := str \<rparr>)
                | _ \<Rightarrow> s\<lparr> currentNote := str \<rparr>))"

text \<open>\<^verbatim>\<open>handleNoteChange\<close>, applied to the text of the change event.\<close>

definition handleNoteChange :: "json_codec \<Rightarrow> string \<Rightarrow> viewer_state \<Rightarrow> viewer_state" where
  "handleNoteChange J newText s =
     (if length newText \<le> MAX_NOTE_LENGTH then
        s\<lparr> currentNote := newText,
           pageNotes := (pageNotes s)(pageNum s \<mapsto> updateNoteJson J s newText) \<rparr>
      else s)"

subsection \<open>Navigation\<close>

definition goToNextPage :: "viewer_state \<Rightarrow> viewer_state" where
  "goToNextPage s =
     (if pageNum s < numPagesOr1 s then s\<lparr> pageNum := pageNum s + 1 \<rparr> else s)"

definition goToPrevPage :: "viewer_state \<Rightarrow> viewer_state" where
  "goToPrevPage s = (if pageNum s > 1 then s\<lparr> pageNum := pageNum s - 1 \<rparr> else s)"

definition goToPage :: "int \<Rightarrow> viewer_state \<Rightarrow> viewer_state" where
  "goToPage page s =
     (if page \<ge> 1 \<and> page \<le> numPagesOr1 s then s\<lparr> pageNum := page \<rparr> else s)"

text \<open>
  \<^verbatim>\<open>parseInt(string)\<close> without a radix: leading white space is skipped, a sign is
  read, a prefix \<^verbatim>\<open>0x\<close> or \<^verbatim>\<open>0X\<close> selects radix 16, and the longest run of digits
  is the value; \<open>None\<close> stands for \<^verbatim>\<open>NaN\<close>. A \<open>char\<close> is read as a code unit
  below 256, so the white space characters are the six ASCII ones and the no-break space.
\<close>

definition isWhiteSpace :: "char \<Rightarrow> bool" where
  "isWhiteSpace c = (of_char c \<in> {9, 10, 11, 12, 13, 32, 160 :: nat})"

definition digitValue :: "nat \<Rightarrow> char \<Rightarrow> nat option" where
  "digitValue radix c =
     (let k = (of_char c :: nat);
          v = (if 48 \<le> k \<and> k \<le> 57 then Some (k - 48)
               else if 97 \<le> k \<and> k \<le> 122 then Some (k - 87)
               else if 65 \<le> k \<and> k \<le> 90 then Some (k - 55)
               else None)
      in case v of None \<Rightarrow> None | Some d \<Rightarrow> if d < radix then Some d else None)"

fun digitRun :: "nat \<Rightarrow> string \<Rightarrow> nat list" where
  "digitRun radix [] = []"
| "digitRun radix (c # cs) =
     (case digitValue radix c of None \<Rightarrow> [] | Some d \<Rightarrow> d # digitRun radix cs)"

definition parseInt :: "string \<Rightarrow> int option" where
  "parseInt str =
     (let trimmed = dropWhile isWhiteSpace str;
          negative = (case trimmed of c # _ \<Rightarrow> c = CHR ''-'' | [] \<Rightarrow> False);
          unsigned =
            (case trimmed of
               c # cs \<Rightarrow> if c = CHR ''+'' \<or> c = CHR ''-'' then cs else trimmed
             | [] \<Rightarrow> []);
          hex = (take 2 unsigned = ''0x'' \<or> take 2 unsigned = ''0X'');
          radix = (if hex then 16 else 10);
          ds = digitRun radix (if hex then drop 2 unsigned else unsigned)
      in if ds = [] then None
         else let v = int (foldl (\<lambda>a d. a * radix + d) 0 ds)
              in Some (if negative then - v else v))"

text \<open>\<^verbatim>\<open>handlePageInputChange\<close> keeps the characters \<^verbatim>\<open>0\<close> to \<^verbatim>\<open>9\<close>.\<close>

definition handlePageInputChange :: "string \<Rightarrow> viewer_state \<Rightarrow> viewer_state" where
  "handlePageInputChange v s =
     s\<lparr> pageInputValue := filter (\<lambda>c. 48 \<le> (of_char c :: nat) \<and> (of_char c :: nat) \<le> 57) v \<rparr>"

definition submitPageChange :: "viewer_state \<Rightarrow> viewer_state" where
  "submitPageChange s =
     (case parseInt (pageInputValue s) of
        Some newPage \<Rightarrow> (goToPage newPage s)\<lparr> isEditingPage := False \<rparr>
      | None \<Rightarrow> s\<lparr> isEditingPage := False \<rparr>)"

definition cancelPageEdit :: "viewer_state \<Rightarrow> viewer_state" where
  "cancelPageEdit s = s\<lparr> isEditingPage := False \<rparr>"

subsection \<open>Zoom and pan\<close>

definition zoomIn :: "viewer_state \<Rightarrow> viewer_state" where
  "zoomIn s = s\<lparr> scale := min (scale s + 0.25) 5 \<rparr>"

definition zoomOut :: "viewer_state \<Rightarrow> viewer_state" where
  "zoomOut s = s\<lparr> scale := max (scale s - 0.25) 0.5 \<rparr>"

text \<open>
  \<^verbatim>\<open>fitToPage\<close>. Without a document or a container it returns at once; a rejection of
  \<^verbatim>\<open>getPage\<close> is caught and only logged. The two quotients are double divisions.
\<close>

definition fitToPage :: "viewer_state \<Rightarrow> viewer_state" where
  "fitToPage s =
     (case pdfDoc s of
        None \<Rightarrow> s
      | Some doc \<Rightarrow>
          (case containerRef s of
             None \<Rightarrow> s
           | Some (containerWidth, containerHeight) \<Rightarrow>
               (case doc_getPage doc (pageNum s) of
                  Inl err \<Rightarrow> s
                | Inr (width, height) \<Rightarrow>
                    (let scaleWidth = to_double (containerWidth / width);
                         scaleHeight = to_double (containerHeight / height);
                         newScale = min scaleWidth scaleHeight
                     in s\<lparr> scale := newScale, panPosition := (0, 0) \<rparr>))))"

text \<open>The mouse handlers, applied to \<^verbatim>\<open>clientX\<close> and \<^verbatim>\<open>clientY\<close> of the event.\<close>

definition handleMouseDown :: "real \<times> real \<Rightarrow> viewer_state \<Rightarrow> viewer_state" where
  "handleMouseDown e s =
     (if scale s > 1 then
        s\<lparr> isPanning := True,
           startPanPos := (fst e - fst (panPosition s), snd e - snd (panPosition s)) \<rparr>
      else s)"

definition handleMouseMove :: "real \<times> real \<Rightarrow> viewer_state \<Rightarrow> viewer_state" where
  "handleMouseMove e s =
     (if \<not> isPanning s then s
      else s\<lparr> panPosition := (fst e - fst (startPanPos s), snd e - snd (startPanPos s)) \<rparr>)"

definition handleMouseUp :: "viewer_state \<Rightarrow> viewer_state" where
  "handleMouseUp s = s\<lparr> isPanning := False \<rparr>"

subsection \<open>Upload\<close>

text \<open>
  \<^verbatim>\<open>handleFileChange\<close>, applied to \<^verbatim>\<open>event.target.files\<close> (\<open>None\<close> for
  \<^verbatim>\<open>null\<close>). The removal of the key \<^verbatim>\<open>pdfNotes\<close> from the session storage is part
  of the handler.
\<close>

definition handleFileChange :: "js_file list option \<Rightarrow> viewer_state \<Rightarrow> viewer_state" where
  "handleFileChange files s =
     (case files of
        Some (f # _) \<Rightarrow>
          if file_type f = ''application/pdf'' then
            s\<lparr> pdfFile := Some f,
               fileName := file_name f,
               pageNum := 1,
               panPosition := (0, 0),
               error := None,
               pdfLoadSource := Some SourceFile,
               isEditingPage := False,
               pageNotes := Map.empty,
               currentNote := '''',
               sessionStorage := (sessionStorage s)(''pdfNotes'' := None),
               pdfDoc := None \<rparr>
          else s\<lparr> error := Some ''Please select a valid PDF file'' \<rparr>
      | _ \<Rightarrow> s)"

text \<open>
  The head of \<^verbatim>\<open>loadPDF\<close>: it returns at once when a document is loaded and its
  source is known, or while a page is rendering; otherwise it reads the uploaded file when
  there is one and the default document when there is none.
\<close>

datatype load_request = LoadFile js_file | LoadDefault

definition loadPDF_request :: "viewer_state \<Rightarrow> load_request option" where
  "loadPDF_request s =
     (if (pdfDoc s \<noteq> None \<and> pdfLoadSource s \<noteq> None) \<or> isPageRendering s then None
      else (case pdfFile s of Some f \<Rightarrow> Some (LoadFile f) | None \<Rightarrow> Some LoadDefault))"

subsection \<open>Failures of loading and rendering\<close>

text \<open>
  The \<^verbatim>\<open>catch\<close> clauses of \<^verbatim>\<open>loadPDF\<close> and \<^verbatim>\<open>renderPage\<close>, applied to the flag
  \<^verbatim>\<open>isCancelled\<close> of the effect run and to the caught value.
\<close>

definition errorMessage :: "thrown \<Rightarrow> string \<Rightarrow> string" where
  "errorMessage e fallback = (case e of JsError nm msg \<Rightarrow> msg | JsOther \<Rightarrow> fallback)"

definition loadPDF_catch :: "bool \<Rightarrow> thrown \<Rightarrow> viewer_state \<Rightarrow> viewer_state" where
  "loadPDF_catch isCancelled e s =
     (if \<not> isCancelled then
        s\<lparr> error := Some (errorMessage e ''Failed to load PDF''), isLoading := False \<rparr>
      else s)"

definition renderPage_catch :: "bool \<Rightarrow> thrown \<Rightarrow> viewer_state \<Rightarrow> viewer_state" where
  "renderPage_catch isCancelled e s =
     (if \<not> isCancelled then
        s\<lparr> error := Some (errorMessage e ''Failed to render PDF''), isLoading := False,
           isPageRendering := False \<rparr>
      else s)"

text \<open>
  The banner \<^verbatim>\<open>{error && (<div ...>Error: {error}</div>)}\<close>: its text when it is
  shown. \<^verbatim>\<open>null\<close> and the empty string are falsy, and nothing is shown for them.
\<close>

definition errorBanner :: "viewer_state \<Rightarrow> string option" where
  "errorBanner s =
     (case error s of
        None \<Rightarrow> None
      | Some msg \<Rightarrow> if msg = '''' then None else Some (''Error: '' @ msg))"

subsection \<open>Loading and the start of a page render\<close>

text \<open>
  What \<^verbatim>\<open>loadPDF\<close> writes before it waits for the document, and what it writes when
  the document has arrived and the effect run has not been cancelled.
\<close>

definition loadPDF_begin :: "viewer_state \<Rightarrow> viewer_state" where
  "loadPDF_begin s =
     (case loadPDF_request s of
        None \<Rightarrow> s
      | Some (LoadFile f) \<Rightarrow> s\<lparr> isLoading := True, pdfLoadSource := Some SourceFile \<rparr>
      | Some LoadDefault \<Rightarrow>
          s\<lparr> isLoading := True, pdfLoadSource := Some SourceDefault,
             fileName := ''example.pdf'' \<rparr>)"

definition loadPDF_loaded :: "bool \<Rightarrow> pdf_doc \<Rightarrow> viewer_state \<Rightarrow> viewer_state" where
  "loadPDF_loaded isCancelled pdf s =
     (if \<not> isCancelled then
        s\<lparr> pdfDoc := Some pdf, numPages := Some (doc_numPages pdf), error := None \<rparr>
      else s)"

text \<open>
  \<^verbatim>\<open>renderPage\<close> up to its first \<^verbatim>\<open>await\<close>. The run has just started, so its flag
  \<^verbatim>\<open>isCancelled\<close> is still false. The loading indicator is raised when the canvas has
  no readable 2d context; the pan offset is reset when a render task is stored and its
  recorded page number differs from the current page.
\<close>

definition renderPage_begin :: "viewer_state \<Rightarrow> viewer_state" where
  "renderPage_begin s =
     (case pdfDoc s of
        None \<Rightarrow> s
      | Some doc \<Rightarrow>
          (let s1 = s\<lparr> isPageRendering := True \<rparr>;
               s2 = (if canvasRef s \<noteq> Some True then s1\<lparr> isLoading := True \<rparr> else s1)
           in if (case renderTaskRef s of
                    None \<Rightarrow> False
                  | Some task \<Rightarrow> Some (pageNum s) \<noteq> pageNumber task)
              then s2\<lparr> panPosition := (0, 0) \<rparr>
              else s2))"

text \<open>
  The end of \<^verbatim>\<open>renderPage\<close> after its render task has been fulfilled: the two flags
  are cleared unless the effect run has been cancelled.
\<close>

definition renderPage_finish :: "bool \<Rightarrow> viewer_state \<Rightarrow> viewer_state" where
  "renderPage_finish cancelled s =
     (if \<not> cancelled then s\<lparr> isLoading := False, isPageRendering := False \<rparr> else s)"

subsection \<open>Events\<close>

text \<open>
  The events that drive the component: the handlers bound in the render tree, the layout
  of the container, and the two steps of loading a document.
\<close>

datatype event =
    NextPage | PrevPage | GoToPage int
  | PageInputChange string | SubmitPageChange | CancelPageEdit
  | ZoomIn | ZoomOut | FitToPage
  | MouseDown "real \<times> real" | MouseMove "real \<times> real" | MouseUp
  | NoteChange string
  | FileChange "js_file list option"
  | Layout "real \<times> real"
  | LoadBegin | Loaded pdf_doc

fun handle :: "json_codec \<Rightarrow> event \<Rightarrow> viewer_state \<Rightarrow> viewer_state" where
  "handle J NextPage s = goToNextPage s"
| "handle J PrevPage s = goToPrevPage s"
| "handle J (GoToPage p) s = goToPage p s"
| "handle J (PageInputChange v) s = handlePageInputChange v s"
| "handle J SubmitPageChange s = submitPageChange s"
| "handle J CancelPageEdit s = cancelPageEdit s"
| "handle J ZoomIn s = zoomIn s"
| "handle J ZoomOut s = zoomOut s"
| "handle J FitToPage s = fitToPage s"
| "handle J (MouseDown e) s = handleMouseDown e s"
| "handle J (MouseMove e) s = handleMouseMove e s"
| "handle J MouseUp s = handleMouseUp s"
| "handle J (NoteChange t) s = handleNoteChange J t s"
| "handle J (FileChange files) s = handleFileChange files s"
| "handle J (Layout d) s = s\<lparr> containerRef := Some d \<rparr>"
| "handle J LoadBegin s = loadPDF_begin s"
| "handle J (Loaded pdf) s = loadPDF_loaded False pdf s"

definition run_events :: "json_codec \<Rightarrow> event list \<Rightarrow> viewer_state \<Rightarrow> viewer_state" where
  "run_events J evs s = foldl (\<lambda>st ev. handle J ev st) s evs"

subsection \<open>The life cycle of render tasks\<close>

text \<open>
  The render effect is asynchronous: a run of \<^verbatim>\<open>renderPage\<close> is suspended at
  \<^verbatim>\<open>await pdfDoc.getPage(pageNum)\<close>, at \<^verbatim>\<open>await renderTaskRef.current.promise\<close>
  and at \<^verbatim>\<open>await renderTask.promise\<close>, and runs of earlier effects go on after their
  cleanup. The model keeps every render task ever created, the index stored in
  \<^verbatim>\<open>renderTaskRef.current\<close>, and every run with its closure variables and the
  \<^verbatim>\<open>await\<close> it is suspended at. A document and a canvas with a 2d context are present
  throughout.
\<close>

datatype run_pc = AwaitGetPage | AwaitPrevious nat | AwaitRender nat | Returned

record effect_run =
  run_pageNum :: int
  isCancelled :: bool
  run_pc :: run_pc

record render_sys =
  tasks :: "render_task list"
  ref_current :: "nat option"
  runs :: "effect_run list"

definition render_sys_init :: render_sys where
  "render_sys_init = \<lparr> tasks = [], ref_current = None, runs = [] \<rparr>"

text \<open>\<^verbatim>\<open>RenderTask.cancel()\<close> rejects the promise of a task that has not settled.\<close>

definition cancel :: "render_task \<Rightarrow> render_task" where
  "cancel t =
     (if task_promise t = Pending then
        t\<lparr> task_promise := Rejected (JsError ''RenderingCancelledException'' ''Rendering cancelled'') \<rparr>
      else t)"

text \<open>
  The cleanup of the latest effect run sets its \<^verbatim>\<open>isCancelled\<close> and cancels the task
  stored in the ref, if there is one.
\<close>

definition cleanup :: "render_sys \<Rightarrow> render_sys" where
  "cleanup sys =
     (let rs = (if runs sys = [] then []
                else butlast (runs sys) @ [(last (runs sys))\<lparr> isCancelled := True \<rparr>]);
          ts = (case ref_current sys of
                  None \<Rightarrow> tasks sys
                | Some k \<Rightarrow>
                    if k < length (tasks sys) then (tasks sys)[k := cancel (tasks sys ! k)]
                    else tasks sys)
      in sys\<lparr> tasks := ts, runs := rs \<rparr>)"

text \<open>
  \<^verbatim>\<open>page.render(renderContext)\<close> and the two assignments after it: a new pending task
  is created, stored in the ref with the page number of the run, and awaited.
\<close>

definition start_render :: "nat \<Rightarrow> render_sys \<Rightarrow> render_sys" where
  "start_render i sys =
     (let k = length (tasks sys)
      in sys\<lparr> tasks := tasks sys @
                 [\<lparr> task_promise = Pending, pageNumber = Some (run_pageNum (runs sys ! i)) \<rparr>],
              ref_current := Some k,
              runs := (runs sys)[i := (runs sys ! i)\<lparr> run_pc := AwaitRender k \<rparr>] \<rparr>)"

definition set_pc :: "nat \<Rightarrow> run_pc \<Rightarrow> render_sys \<Rightarrow> render_sys" where
  "set_pc i pc sys = sys\<lparr> runs := (runs sys)[i := (runs sys ! i)\<lparr> run_pc := pc \<rparr>] \<rparr>"

text \<open>
  The steps. \<open>EffectRun p\<close>: a dependency changed, React runs the cleanup of the previous
  effect and then the effect for page \<open>p\<close>, which suspends at \<^verbatim>\<open>getPage\<close>.
  \<open>GetPageResolved i\<close>: run \<open>i\<close> goes on to the check of the ref.
  \<open>PreviousSettled i\<close>: the awaited promise of the stored task has settled and run \<open>i\<close>
  goes on; a rejection by an \<^verbatim>\<open>Error\<close> other than the cancellation is thrown again and
  ends the run in its \<^verbatim>\<open>catch\<close>. \<open>RenderCompleted k\<close>: the library finishes task
  \<open>k\<close>. \<open>RenderSettled i\<close>: run \<open>i\<close> goes on after its own task has settled.
  A step that is not enabled gives \<open>None\<close>.
\<close>

datatype render_event =
    EffectRun int | GetPageResolved nat | GetPageRejected nat
  | PreviousSettled nat | RenderCompleted nat | RenderSettled nat

fun step :: "render_event \<Rightarrow> render_sys \<Rightarrow> render_sys option" where
  "step (EffectRun p) sys =
     (let sys' = cleanup sys
      in Some (sys'\<lparr> runs := runs sys' @
                 [\<lparr> run_pageNum = p, isCancelled = False, run_pc = AwaitGetPage \<rparr>] \<rparr>))"
| "step (GetPageResolved i) sys =
     (if i < length (runs sys) \<and> run_pc (runs sys ! i) = AwaitGetPage then
        (case ref_current sys of
           Some k \<Rightarrow> Some (set_pc i (AwaitPrevious k) sys)
         | None \<Rightarrow> Some (start_render i sys))
      else None)"
| "step (GetPageRejected i) sys =
     (if i < length (runs sys) \<and> run_pc (runs sys ! i) = AwaitGetPage then
        Some (set_pc i Returned sys)
      else None)"
| "step (PreviousSettled i) sys =
     (if i < length (runs sys) then
        (case run_pc (runs sys ! i) of
           AwaitPrevious k \<Rightarrow>
             if k < length (tasks sys) then
               (case task_promise (tasks sys ! k) of
                  Pending \<Rightarrow> None
                | Fulfilled \<Rightarrow> Some (start_render i sys)
                | Rejected (JsError nm msg) \<Rightarrow>
                    if nm \<noteq> ''RenderingCancelledException'' then Some (set_pc i Returned sys)
                    else Some (start_render i sys)
                | Rejected JsOther \<Rightarrow> Some (start_render i sys))
             else None
         | _ \<Rightarrow> None)
      else None)"
| "step (RenderCompleted k) sys =
     (if k < length (tasks sys) \<and> task_promise (tasks sys ! k) = Pending then
        Some (sys\<lparr> tasks := (tasks sys)[k := (tasks sys ! k)\<lparr> task_promise := Fulfilled \<rparr>] \<rparr>)
      else None)"
| "step (RenderSettled i) sys =
     (if i < length (runs sys) then
        (case run_pc (runs sys ! i) of
           AwaitRender k \<Rightarrow>
             if k < length (tasks sys) \<and> task_promise (tasks sys ! k) \<noteq> Pending
             then Some (set_pc i Returned sys) else None
         | _ \<Rightarrow> None)
      else None)"

fun steps :: "render_event list \<Rightarrow> render_sys \<Rightarrow> render_sys option" where
  "steps [] sys = Some sys"
| "steps (e # es) sys = (case step e sys of None \<Rightarrow> None | Some sys' \<Rightarrow> steps es sys')"

text \<open>The render tasks whose promise has not settled.\<close>

definition uncompleted :: "render_sys \<Rightarrow> nat list" where
  "uncompleted sys = filter (\<lambda>k. task_promise (tasks sys ! k) = Pending) [0 ..< length (tasks sys)]"

subsection \<open>Classes of events and the page range\<close>

definition is_navigation :: "event \<Rightarrow> bool" where
  "is_navigation ev =
     (case ev of
        NextPage \<Rightarrow> True | PrevPage \<Rightarrow> True | GoToPage p \<Rightarrow> True
      | SubmitPageChange \<Rightarrow> True | _ \<Rightarrow> False)"

definition page_in_range :: "viewer_state \<Rightarrow> bool" where
  "page_in_range s = (1 \<le> pageNum s \<and> pageNum s \<le> numPagesOr1 s)"

definition scale_in_range :: "viewer_state \<Rightarrow> bool" where
  "scale_in_range s = (0.5 \<le> scale s \<and> scale s \<le> 5)"

subsection \<open>A concrete JSON codec\<close>

text \<open>
  An instance of the codec for the concrete checks below: the printer writes the compact
  JSON text of a \<^verbatim>\<open>DocumentNotes\<close> value (decimal numbers, strings with the quote
  and the backslash escaped), and the reader reads back what the printer writes and throws
  on any other text.
\<close>

definition expect :: "string \<Rightarrow> string \<Rightarrow> string option" where
  "expect lit s = (if take (length lit) s = lit then Some (drop (length lit) s) else None)"

definition isDigit :: "char \<Rightarrow> bool" where
  "isDigit c = (48 \<le> (of_char c :: nat) \<and> (of_char c :: nat) \<le> 57)"

function show_nat :: "nat \<Rightarrow> string" where
  "show_nat n =
     (if n < 10 then [char_of (48 + n)]
      else show_nat (n div 10) @ [char_of (48 + n mod 10)])"
  by pat_completeness auto
termination
  by (relation "measure id") auto

declare show_nat.simps [simp del]

definition show_int :: "int \<Rightarrow> string" where
  "show_int i = (if i < 0 then CHR ''-'' # show_nat (nat (- i)) else show_nat (nat i))"

definition read_nat :: "string \<Rightarrow> (nat \<times> string) option" where
  "read_nat s =
     (let ds = takeWhile isDigit s
      in if ds = [] then None
         else Some (foldl (\<lambda>a c. 10 * a + (of_char c - 48)) 0 ds, dropWhile isDigit s))"

definition read_int :: "string \<Rightarrow> (int \<times> string) option" where
  "read_int s =
     (case s of
        [] \<Rightarrow> None
      | c # cs \<Rightarrow>
          if c = CHR ''-'' then map_option (\<lambda>(n, r). (- int n, r)) (read_nat cs)
          else map_option (\<lambda>(n, r). (int n, r)) (read_nat s))"

fun escape :: "string \<Rightarrow> string" where
  "escape [] = []"
| "escape (c # cs) =
     (if c = CHR 0x22 \<or> c = CHR 0x5C then CHR 0x5C # c # escape cs else c # escape cs)"

fun read_quoted :: "string \<Rightarrow> (string \<times> string) option" where
  "read_quoted [] = None"
| "read_quoted [c] = (if c = CHR 0x22 then Some ([], []) else None)"
| "read_quoted (c # d # cs) =
     (if c = CHR 0x22 then Some ([], d # cs)
      else if c = CHR 0x5C then map_option (\<lambda>(t, r). (d # t, r)) (read_quoted cs)
      else map_option (\<lambda>(t, r). (c # t, r)) (read_quoted (d # cs)))"

definition page_open :: string where
  \<open>page_open = ''{"number":''\<close>

definition text_key :: string where
  \<open>text_key = '',"text":"''\<close>

definition doc_open :: string where
  \<open>doc_open = ''{"document":{"pages":[''\<close>

definition meta_key :: string where
  \<open>meta_key = ''],"metadata":{"total_pages":''\<close>

definition show_page :: "PageNote \<Rightarrow> string" where
  "show_page p =
     page_open @ show_int (number p) @ text_key @ escape (note_text p) @ [CHR 0x22, CHR ''}'']"

fun show_pages :: "PageNote list \<Rightarrow> string" where
  "show_pages [] = []"
| "show_pages [p] = show_page p"
| "show_pages (p # q # ps) = show_page p @ '','' @ show_pages (q # ps)"

definition stringify_notes :: "DocumentNotes \<Rightarrow> string" where
  "stringify_notes d =
     doc_open @ show_pages (pages d) @ meta_key @ show_int (total_pages d) @ ''}}}''"

definition read_page :: "string \<Rightarrow> (PageNote \<times> string) option" where
  "read_page s =
     (case expect page_open s of
        None \<Rightarrow> None
      | Some s1 \<Rightarrow>
          (case read_int s1 of
             None \<Rightarrow> None
           | Some (n, s2) \<Rightarrow>
               (case expect text_key s2 of
                  None \<Rightarrow> None
                | Some s3 \<Rightarrow>
                    (case read_quoted s3 of
                       None \<Rightarrow> None
                     | Some (t, s4) \<Rightarrow>
                         (case expect ''}'' s4 of
                            None \<Rightarrow> None
                          | Some s5 \<Rightarrow> Some (\<lparr> number = n, note_text = t \<rparr>, s5))))))"

fun read_pages :: "nat \<Rightarrow> string \<Rightarrow> (PageNote list \<times> string) option" where
  "read_pages 0 s = None"
| "read_pages (Suc k) s =
     (case read_page s of
        None \<Rightarrow> None
      | Some (p, r) \<Rightarrow>
          (case r of
             [] \<Rightarrow> Some ([p], r)
           | c # r' \<Rightarrow>
               if c = CHR '','' then map_option (\<lambda>(ps, r''). (p # ps, r'')) (read_pages k r')
               else Some ([p], r)))"

definition read_page_list :: "string \<Rightarrow> (PageNote list \<times> string) option" where
  "read_page_list s =
     (case s of
        [] \<Rightarrow> None
      | c # r \<Rightarrow> if c = CHR '']'' then Some ([], s) else read_pages (length s) s)"

definition parse_notes :: "string \<Rightarrow> parsed" where
  "parse_notes s =
     (case expect doc_open s of
        None \<Rightarrow> Throws
      | Some s1 \<Rightarrow>
          (case read_page_list s1 of
             None \<Rightarrow> Throws
           | Some (ps, s2) \<Rightarrow>
               (case expect meta_key s2 of
                  None \<Rightarrow> Throws
                | Some s3 \<Rightarrow>
                    (case read_int s3 of
                       None \<Rightarrow> Throws
                     | Some (n, s4) \<Rightarrow>
                         if s4 = ''}}}'' then Document \<lparr> pages = ps, total_pages = n \<rparr>
                         else Throws))))"

definition plain_json :: json_codec where
  "plain_json = \<lparr> JSON_parse = parse_notes, JSON_stringify = stringify_notes \<rparr>"

text \<open>
  The law of \<^verbatim>\<open>JSON.parse\<close> and \<^verbatim>\<open>JSON.stringify\<close> that the notes rely on: a
  printed structure is never the empty string and parses back to itself.
\<close>

definition codec_round_trip :: "json_codec \<Rightarrow> bool" where
  "codec_round_trip J =
     (\<forall>d. JSON_parse J (JSON_stringify J d) = Document d \<and> JSON_stringify J d \<noteq> '''')"

subsection \<open>Concrete inputs\<close>

text \<open>
  A document of three US Letter pages (612 by 792 points), and the state of the component
  after the container has been laid out 300 pixels wide and 842 pixels high and the
  document has been loaded.
\<close>

definition letter_doc :: pdf_doc where
  "letter_doc =
     \<lparr> doc_numPages = 3,
       doc_getPage = (\<lambda>n. if 1 \<le> n \<and> n \<le> 3 then Inr (612, 792)
                          else Inl (JsError ''Error'' ''Invalid page request.'')) \<rparr>"

definition loaded_view :: viewer_state where
  "loaded_view = run_events plain_json [Layout (300, 842), LoadBegin, Loaded letter_doc] initial_state"


definition report_pdf :: js_file where
  "report_pdf = \<lparr> file_name = ''report.pdf'', file_type = ''application/pdf'' \<rparr>"


definition uploaded_during_render :: viewer_state where
  "uploaded_during_render =
     handleFileChange (Some [report_pdf]) (renderPage_begin loaded_view)"

text \<open>
  A run of the render effect: page 1 is rendered to the end, the user moves on three times
  before \<^verbatim>\<open>getPage\<close> answers the first of the three runs, and the runs then go on in
  the order in which they were started.
\<close>

definition quick_navigation :: "render_event list" where
  "quick_navigation =
     [EffectRun 1, GetPageResolved 0, RenderCompleted 0, RenderSettled 0,
      EffectRun 2, EffectRun 3, EffectRun 4,
      GetPageResolved 1, PreviousSettled 1,
      GetPageResolved 2, GetPageResolved 3,
      RenderCompleted 1, PreviousSettled 2, PreviousSettled 3]"

subsection \<open>Stored notes and reachable states\<close>

text \<open>
  \<open>note_parses\<close>: the stored note of page \<open>p\<close>, if there is one, does not parse to a
  value without a \<^verbatim>\<open>document.pages\<close> array. \<open>shows_text\<close>: the stored note of page
  \<open>p\<close> is a printed structure whose first page note with number \<open>p\<close> has the text
  \<open>t\<close>. \<open>notes_printed\<close>: every stored note is a printed structure.
\<close>

definition note_parses :: "json_codec \<Rightarrow> viewer_state \<Rightarrow> int \<Rightarrow> bool" where
  "note_parses J s p =
     (case pageNotes s p of None \<Rightarrow> True | Some str \<Rightarrow> JSON_parse J str \<noteq> NotDocument)"

definition shows_text :: "json_codec \<Rightarrow> viewer_state \<Rightarrow> int \<Rightarrow> string \<Rightarrow> bool" where
  "shows_text J s p t =
     (\<exists>d pn. pageNotes s p = Some (JSON_stringify J d)
        \<and> find (\<lambda>x. number x = p) (pages d) = Some pn \<and> note_text pn = t)"

definition notes_printed :: "json_codec \<Rightarrow> viewer_state \<Rightarrow> bool" where
  "notes_printed J s =
     (\<forall>r str. pageNotes s r = Some str \<longrightarrow> (\<exists>d. str = JSON_stringify J d))"

text \<open>
  The states the component reaches from its initial state by the events above, by runs of
  the notes effect and by starts of the render effect.
\<close>

inductive reachable :: "json_codec \<Rightarrow> viewer_state \<Rightarrow> bool" for J where
  reach_initial: "reachable J initial_state"
| reach_event: "reachable J s \<Longrightarrow> reachable J (handle J ev s)"
| reach_notes_effect: "reachable J s \<Longrightarrow> reachable J (pageChangeEffect J s)"
| reach_render: "reachable J s \<Longrightarrow> reachable J (renderPage_begin s)"

text \<open>
  The state in which no document can arrive any more: a page render is marked as running
  and there is no document.
\<close>

definition render_mark_stuck :: "viewer_state \<Rightarrow> bool" where
  "render_mark_stuck s = (isPageRendering s \<and> pdfDoc s = None)"

section \<open>Properties\<close>

subsection \<open>The concrete codec round-trips\<close>

lemma expect_append [simp]: "expect lit (lit @ r) = Some r"
  by (simp add: expect_def)

lemma isDigit_char_of: "(d::nat) < 10 \<Longrightarrow> isDigit (char_of (48 + d))"
  by (simp add: isDigit_def)

lemma show_nat_digits: "\<forall>c \<in> set (show_nat n). isDigit c"
proof (induction n rule: show_nat.induct)
  case (1 n)
  show ?case
  proof (cases "n < 10")
    case True
    then show ?thesis by (subst show_nat.simps) (simp add: isDigit_char_of)
  next
    case False
    with 1 show ?thesis by (subst show_nat.simps) (simp add: isDigit_char_of)
  qed
qed

lemma show_nat_nonempty: "show_nat n \<noteq> []"
  by (subst show_nat.simps) simp

lemma digit_value: "(d::nat) < 10 \<Longrightarrow> (of_char (char_of (48 + d) :: char) :: nat) - 48 = d"
  by simp

lemma show_nat_value: "foldl (\<lambda>a c. 10 * a + (of_char c - 48)) 0 (show_nat n) = n"
proof (induction n rule: show_nat.induct)
  case (1 n)
  show ?case
  proof (cases "n < 10")
    case True
    then show ?thesis by (subst show_nat.simps) simp
  next
    case False
    with 1 have "foldl (\<lambda>a c. 10 * a + (of_char c - 48)) 0 (show_nat (n div 10)) = n div 10"
      by simp
    moreover have "(of_char (char_of (48 + n mod 10) :: char) :: nat) - 48 = n mod 10"
      by (rule digit_value) simp
    ultimately show ?thesis using False by (subst show_nat.simps) simp
  qed
qed

lemma read_nat_show_nat:
  assumes "r = [] \<or> \<not> isDigit (hd r)"
  shows "read_nat (show_nat n @ r) = Some (n, r)"
proof -
  have tw: "takeWhile isDigit (show_nat n @ r) = show_nat n"
    using assms show_nat_digits [of n] by (cases r) (simp_all add: takeWhile_append2 takeWhile_tail)
  have dw: "dropWhile isDigit (show_nat n @ r) = r"
    using assms show_nat_digits [of n] by (cases r) (simp_all add: dropWhile_append2)
  show ?thesis
    by (simp add: read_nat_def tw dw show_nat_nonempty show_nat_value)
qed

lemma read_int_show_int:
  assumes "r = [] \<or> \<not> isDigit (hd r)"
  shows "read_int (show_int i @ r) = Some (i, r)"
proof (cases "i < 0")
  case True
  then show ?thesis
    by (simp add: show_int_def read_int_def read_nat_show_nat [OF assms])
next
  case False
  obtain c cs where sn: "show_nat (nat i) = c # cs"
    using show_nat_nonempty [of "nat i"] by (cases "show_nat (nat i)") auto
  have "isDigit c" using show_nat_digits [of "nat i"] sn by simp
  then have "c \<noteq> CHR ''-''" by (auto simp: isDigit_def)
  moreover have "read_nat (c # cs @ r) = Some (nat i, r)"
    using read_nat_show_nat [OF assms, of "nat i"] sn by simp
  ultimately show ?thesis using False sn
    by (simp add: show_int_def read_int_def)
qed

lemma read_quoted_escape: "read_quoted (escape t @ CHR 0x22 # r) = Some (t, r)"
proof (induction t)
  case Nil
  then show ?case by (cases r) simp_all
next
  case (Cons c t)
  show ?case
  proof (cases "c = CHR 0x22 \<or> c = CHR 0x5C")
    case True
    then show ?thesis using Cons by auto
  next
    case False
    obtain d ds where "escape t @ CHR 0x22 # r = d # ds"
      by (cases "escape t @ CHR 0x22 # r") auto
    with False Cons show ?thesis by auto
  qed
qed

lemma read_page_show_page: "read_page (show_page p @ r) = Some (p, r)"
proof -
  have "read_int (show_int (number p) @ (text_key @ escape (note_text p) @ CHR 0x22 # CHR ''}'' # r))
        = Some (number p, text_key @ escape (note_text p) @ CHR 0x22 # CHR ''}'' # r)"
    by (rule read_int_show_int) (simp add: text_key_def isDigit_def)
  then show ?thesis
    using read_quoted_escape [of "note_text p" "CHR ''}'' # r"]
    by (simp add: read_page_def show_page_def) (simp add: expect_def)
qed

lemma read_pages_show_pages:
  assumes "ps \<noteq> []" and "length ps \<le> k" and "r = [] \<or> hd r \<noteq> CHR '',''"
  shows "read_pages k (show_pages ps @ r) = Some (ps, r)"
  using assms
proof (induction ps arbitrary: k rule: show_pages.induct)
  case 1
  then show ?case by simp
next
  case (2 p)
  then obtain k' where k: "k = Suc k'" by (cases k) auto
  from 2(3) show ?case
    using read_page_show_page [of p "[]"] read_page_show_page [of p r]
    by (cases r) (simp_all add: k)
next
  case (3 p q ps)
  then obtain k' where k: "k = Suc k'" by (cases k) auto
  from 3 k have "read_pages k' (show_pages (q # ps) @ r) = Some (q # ps, r)" by simp
  then show ?case
    using read_page_show_page [of p "CHR '','' # show_pages (q # ps) @ r"]
    by (simp add: k)
qed

lemma show_pages_length: "ps \<noteq> [] \<Longrightarrow> length ps \<le> length (show_pages ps @ r)"
proof (induction ps rule: show_pages.induct)
  case 1
  then show ?case by simp
next
  case (2 p)
  then show ?case by (simp add: show_page_def)
next
  case (3 p q ps)
  then show ?case by (simp add: show_page_def)
qed

lemma show_pages_head: "ps \<noteq> [] \<Longrightarrow> \<exists>cs. show_pages ps = CHR ''{'' # cs"
  by (induction ps rule: show_pages.induct) (simp_all add: show_page_def page_open_def)

lemma read_page_list_show_pages:
  "read_page_list (show_pages ps @ meta_key @ r) = Some (ps, meta_key @ r)"
proof (cases "ps = []")
  case True
  then show ?thesis by (simp add: read_page_list_def meta_key_def)
next
  case False
  obtain cs where h: "show_pages ps = CHR ''{'' # cs" using show_pages_head [OF False] by blast
  have "read_pages (length (show_pages ps @ meta_key @ r)) (show_pages ps @ meta_key @ r)
        = Some (ps, meta_key @ r)"
    by (rule read_pages_show_pages [OF False show_pages_length [OF False]])
       (simp add: meta_key_def)
  then show ?thesis using h by (simp add: read_page_list_def)
qed

lemma parse_stringify_notes: "parse_notes (stringify_notes d) = Document d"
proof -
  have "read_int (show_int (total_pages d) @ ''}}}'') = Some (total_pages d, ''}}}'')"
    by (rule read_int_show_int) (simp add: isDigit_def)
  then show ?thesis
    using read_page_list_show_pages [of "pages d" "show_int (total_pages d) @ ''}}}''"]
    by (simp add: parse_notes_def stringify_notes_def)
qed

lemma stringify_notes_nonempty: "stringify_notes d \<noteq> []"
  by (simp add: stringify_notes_def doc_open_def)

lemma plain_json_round_trip: "codec_round_trip plain_json"
  by (simp add: codec_round_trip_def plain_json_def parse_stringify_notes
      stringify_notes_nonempty)

subsection \<open>Navigation\<close>

lemma numPagesOr1_pageNum_update [simp]: "numPagesOr1 (s\<lparr> pageNum := p \<rparr>) = numPagesOr1 s"
  by (simp add: numPagesOr1_def)

lemma numPagesOr1_isEditingPage_update [simp]:
  "numPagesOr1 (s\<lparr> isEditingPage := b \<rparr>) = numPagesOr1 s"
  by (simp add: numPagesOr1_def)

lemma navigation_step:
  assumes "is_navigation ev" and "page_in_range s"
  shows "page_in_range (handle J ev s) \<and> numPages (handle J ev s) = numPages s"
  using assms
  by (cases ev)
     (auto simp: is_navigation_def page_in_range_def goToNextPage_def goToPrevPage_def
        goToPage_def submitPageChange_def numPagesOr1_def split: option.splits)

lemma navigation_run:
  "list_all is_navigation evs \<Longrightarrow> page_in_range s \<Longrightarrow>
   page_in_range (run_events J evs s) \<and> numPages (run_events J evs s) = numPages s"
proof (induction evs arbitrary: s)
  case Nil
  then show ?case by (simp add: run_events_def)
next
  case (Cons ev evs)
  from Cons.prems have a: "is_navigation ev" and b: "list_all is_navigation evs" by simp_all
  from navigation_step [OF a Cons.prems(2), of J]
  have c: "page_in_range (handle J ev s)" and d: "numPages (handle J ev s) = numPages s"
    by simp_all
  from Cons.IH [OF b c] d show ?case by (simp add: run_events_def)
qed

text \<open>
  C3. In a state whose page index lies between 1 and the total (\<^verbatim>\<open>numPages || 1\<close>),
  every sequence of navigation operations (next, previous, go to page \<open>p\<close>, submitting
  the page-number input) leaves the page index between 1 and the same total. The next page
  is taken only below the total, the previous page only above 1, and \<open>goToPage p\<close>
  changes the index only for \<open>1 \<le> p \<le> total\<close>; the total is the page count of a
  loaded document and 1 while the page count is unknown.
\<close>

theorem page_index_stays_in_range:
  assumes "1 \<le> pageNum s" and "pageNum s \<le> numPagesOr1 s"
    and "list_all is_navigation evs"
  shows "1 \<le> pageNum (run_events J evs s)
    \<and> pageNum (run_events J evs s) \<le> numPagesOr1 s
    \<and> pageNum (goToNextPage s) = (if pageNum s < numPagesOr1 s then pageNum s + 1 else pageNum s)
    \<and> pageNum (goToPrevPage s) = (if pageNum s > 1 then pageNum s - 1 else pageNum s)
    \<and> pageNum (goToPage p s) = (if 1 \<le> p \<and> p \<le> numPagesOr1 s then p else pageNum s)
    \<and> pageNum (submitPageChange s) =
        (case parseInt (pageInputValue s) of
           Some p \<Rightarrow> if 1 \<le> p \<and> p \<le> numPagesOr1 s then p else pageNum s
         | None \<Rightarrow> pageNum s)
    \<and> (numPages s = None \<longrightarrow> numPagesOr1 s = 1)
    \<and> (\<forall>totalPages. numPages s = Some totalPages \<and> 1 \<le> totalPages
          \<longrightarrow> numPagesOr1 s = totalPages)"
proof -
  have r: "page_in_range s" using assms(1,2) by (simp add: page_in_range_def)
  from navigation_run [OF assms(3) r, of J]
  have "1 \<le> pageNum (run_events J evs s) \<and> pageNum (run_events J evs s) \<le> numPagesOr1 s"
    by (auto simp: page_in_range_def numPagesOr1_def)
  moreover have "(numPages s = None \<longrightarrow> numPagesOr1 s = 1)
    \<and> (\<forall>totalPages. numPages s = Some totalPages \<and> 1 \<le> totalPages
          \<longrightarrow> numPagesOr1 s = totalPages)"
    by (auto simp: numPagesOr1_def)
  ultimately show ?thesis
    by (simp add: goToNextPage_def goToPrevPage_def goToPage_def submitPageChange_def
        split: option.splits)
qed

text \<open>
  The same, checked on the loaded three-page document with the page-number input
  holding \<open>2\<close>: three steps forward, one back, a jump to page 7 (refused) and a
  submitted input end on page 2.
\<close>

theorem page_index_stays_in_range_witness:
  "1 \<le> pageNum (handle plain_json (PageInputChange ''p2'') loaded_view)
   \<and> pageNum (handle plain_json (PageInputChange ''p2'') loaded_view)
       \<le> numPagesOr1 (handle plain_json (PageInputChange ''p2'') loaded_view)
   \<and> list_all is_navigation [NextPage, NextPage, NextPage, PrevPage, GoToPage 7, SubmitPageChange]
   \<and> numPagesOr1 (handle plain_json (PageInputChange ''p2'') loaded_view) = 3
   \<and> pageNum (run_events plain_json
        [NextPage, NextPage, NextPage, PrevPage, GoToPage 7, SubmitPageChange]
        (handle plain_json (PageInputChange ''p2'') loaded_view)) = 2
   \<and> pageNum (run_events plain_json
        [NextPage, NextPage, NextPage, PrevPage, GoToPage 7, SubmitPageChange]
        (handle plain_json (PageInputChange ''p2'') loaded_view)) \<le> 3
   \<and> 1 \<le> pageNum (run_events plain_json
        [NextPage, NextPage, NextPage, PrevPage, GoToPage 7, SubmitPageChange]
        (handle plain_json (PageInputChange ''p2'') loaded_view))"
  using page_index_stays_in_range
    [of "handle plain_json (PageInputChange ''p2'') loaded_view"
        "[NextPage, NextPage, NextPage, PrevPage, GoToPage 7, SubmitPageChange]" plain_json]
  by (simp add: loaded_view_def run_events_def initial_state_def letter_doc_def
      loadPDF_begin_def loadPDF_request_def loadPDF_loaded_def handlePageInputChange_def
      numPagesOr1_def is_navigation_def goToNextPage_def goToPrevPage_def goToPage_def
      submitPageChange_def parseInt_def isWhiteSpace_def digitValue_def Let_def)

subsection \<open>Render tasks\<close>

text \<open>
  C1. The claim is that at most one render task is uncompleted in every reachable state of
  the render effect. The effect waits for the task that is stored in the ref when the run
  reaches the check, and does not look at the ref again after the wait. In the run
  \<open>quick_navigation\<close> the runs for pages 3 and 4 both wait for the task of page 2, and
  when it completes each of them starts a task of its own: tasks 2 and 3 are uncompleted
  together.
\<close>

theorem render_tasks_overlap:
  "map_option uncompleted (steps quick_navigation render_sys_init) = Some [2, 3]"
  by (simp add: quick_navigation_def render_sys_init_def cleanup_def start_render_def
      set_pc_def uncompleted_def cancel_def upt_rec)

subsection \<open>Doubles\<close>

lemma bits_one: "bits (Suc 0) = Suc 0"
  by (simp add: bits.simps [of "Suc 0"] bits.simps [of 0])

lemma bits_lower: "0 < n \<Longrightarrow> 2 ^ (bits n - 1) \<le> n"
proof (induction n rule: bits.induct)
  case (1 n)
  show ?case
  proof (cases "n div 2 = 0")
    case True
    with 1(2) have "n = 1" by (simp add: div_eq_0_iff)
    then show ?thesis by (simp add: bits_one)
  next
    case False
    with 1 have ih: "2 ^ (bits (n div 2) - 1) \<le> n div 2" by simp
    from False have pos: "0 < bits (n div 2)" by (subst bits.simps) simp
    have "bits n = Suc (bits (n div 2))" using 1(2) by (subst bits.simps) simp
    then have "2 ^ (bits n - 1) = 2 * 2 ^ (bits (n div 2) - 1)"
      using pos by (cases "bits (n div 2)") simp_all
    also have "\<dots> \<le> 2 * (n div 2)" using ih by simp
    also have "\<dots> \<le> n" by simp
    finally show ?thesis .
  qed
qed

lemma bits_upper: "n < 2 ^ bits n"
proof (induction n rule: bits.induct)
  case (1 n)
  show ?case
  proof (cases "n = 0")
    case True
    then show ?thesis by simp
  next
    case False
    with 1 have ih: "n div 2 < 2 ^ bits (n div 2)" by simp
    have b: "bits n = Suc (bits (n div 2))" using False by (subst bits.simps) simp
    have "n < 2 * (n div 2) + 2" by presburger
    also have "\<dots> \<le> 2 * 2 ^ bits (n div 2)" using ih by simp
    finally show ?thesis using b by simp
  qed
qed

lemma bits_eq:
  assumes "2 ^ m \<le> n" and "n < 2 ^ Suc m"
  shows "bits n = Suc m"
proof -
  have pos: "0 < n" using assms(1) by (metis less_le_trans zero_less_numeral zero_less_power)
  have "(2::nat) ^ (bits n - 1) < 2 ^ Suc m"
    using bits_lower [OF pos] assms(2) by (rule le_less_trans)
  then have a: "bits n - 1 < Suc m" by (rule power_less_imp_less_exp [rotated]) simp
  have "(2::nat) ^ m < 2 ^ bits n"
    using assms(1) bits_upper [of n] by (rule le_less_trans)
  then have b: "m < bits n" by (rule power_less_imp_less_exp [rotated]) simp
  from a b show ?thesis by simp
qed

text \<open>
  In the normal range the rounding is the rounding of the 53-bit significand: when
  \<open>x * 2 ^ j\<close> lies between \<open>2 ^ 52\<close> and \<open>2 ^ 53\<close>, the double of \<open>x\<close> is the nearest
  integer to \<open>x * 2 ^ j\<close>, ties to even, divided by \<open>2 ^ j\<close>.
\<close>

lemma to_double_normal:
  assumes "0 < x" and "2 ^ 52 \<le> x * 2 ^ j" and "x * 2 ^ j < 2 ^ 53" and "j \<le> 1074"
  shows "to_double x = of_int (round_even (x * 2 ^ j)) / 2 ^ j"
proof -
  define a where "a = x * 2 ^ denorm_exp"
  define m where "m = denorm_exp - j"
  have jm: "denorm_exp = j + m" using assms(4) by (simp add: m_def denorm_exp_def)
  have split: "(2::real) ^ denorm_exp = 2 ^ j * 2 ^ m" unfolding jm by (rule power_add)
  have a_eq: "a = (x * 2 ^ j) * 2 ^ m" by (simp add: a_def split)
  have lo: "2 ^ (52 + m) \<le> a"
    using assms(2) by (simp add: a_eq power_add)
  have hi: "a < 2 ^ (53 + m)"
    using assms(3) by (simp add: a_eq power_add)
  have flo: "(2::int) ^ (52 + m) \<le> \<lfloor>a\<rfloor>"
    using lo by (simp add: le_floor_iff)
  have fhi: "\<lfloor>a\<rfloor> < (2::int) ^ (53 + m)"
    using hi by (simp add: floor_less_iff)
  have nlo: "(2::nat) ^ (52 + m) \<le> nat \<lfloor>a\<rfloor>"
    using flo by (simp add: le_nat_iff)
  have nhi: "nat \<lfloor>a\<rfloor> < (2::nat) ^ Suc (52 + m)"
    using fhi flo by (simp add: nat_less_iff)
  have b: "bits (nat \<lfloor>a\<rfloor>) = Suc (52 + m)" by (rule bits_eq [OF nlo nhi])
  have k: "bits (nat \<lfloor>a\<rfloor>) - 53 = m" by (simp add: b)
  have q: "a / 2 ^ m = x * 2 ^ j" by (simp add: a_eq)
  have "to_double x = of_int (round_even (x * 2 ^ j)) * 2 ^ m / 2 ^ denorm_exp"
    using assms(1) k q by (simp add: to_double_def Let_def flip: a_def)
  also have "\<dots> = of_int (round_even (x * 2 ^ j)) / 2 ^ j"
    by (simp add: split)
  finally show ?thesis .
qed




lemma double_300_612: "to_double (300 / 612) = 8830587504648031 / 2 ^ 54"
proof -
  have "to_double (300 / 612) = of_int (round_even (300 / 612 * 2 ^ 54)) / 2 ^ 54"
    by (rule to_double_normal) simp_all
  also have "round_even (300 / 612 * 2 ^ 54) = 8830587504648031"
    by (simp add: round_even_def Let_def)
  finally show ?thesis by simp
qed



subsection \<open>Zoom\<close>

lemma scale_step:
  assumes "ev \<noteq> FitToPage" and "scale_in_range s"
  shows "scale_in_range (handle J ev s)"
  using assms
  by (cases ev)
     (auto simp: scale_in_range_def goToNextPage_def goToPrevPage_def goToPage_def
        handlePageInputChange_def submitPageChange_def cancelPageEdit_def zoomIn_def zoomOut_def
        handleMouseDown_def handleMouseMove_def handleMouseUp_def handleNoteChange_def
        handleFileChange_def loadPDF_begin_def loadPDF_loaded_def
        split: option.splits list.splits load_request.splits)

lemma scale_run:
  "FitToPage \<notin> set evs \<Longrightarrow> scale_in_range s \<Longrightarrow> scale_in_range (run_events J evs s)"
proof (induction evs arbitrary: s)
  case Nil
  then show ?case by (simp add: run_events_def)
next
  case (Cons ev evs)
  from Cons.prems have a: "ev \<noteq> FitToPage" and b: "FitToPage \<notin> set evs" by auto
  from scale_step [OF a Cons.prems(2)] have "scale_in_range (handle J ev s)" .
  from Cons.IH [OF b this] show ?case by (simp add: run_events_def)
qed

lemma fit_loaded_scale:
  "scale (run_events plain_json [Layout (w, 842), LoadBegin, Loaded letter_doc, FitToPage]
            initial_state)
   = min (to_double (w / 612)) (to_double (842 / 792))"
  by (simp add: run_events_def initial_state_def letter_doc_def loadPDF_begin_def
      loadPDF_request_def loadPDF_loaded_def fitToPage_def del: divide_divide_eq_left)

text \<open>
  The scale does leave the range: with the container 300 pixels wide, fitting a US Letter
  page right after loading sets the scale to the double of \<open>300 / 612\<close>, which is below
  0.5.
\<close>

theorem fit_leaves_scale_range:
  "scale (run_events plain_json [Layout (300, 842), LoadBegin, Loaded letter_doc, FitToPage]
            initial_state) < 0.5"
proof -
  have "min (to_double (300 / 612)) (to_double (842 / 792)) \<le> to_double (300 / 612)"
    by (rule min.cobounded1)
  also have "\<dots> < 0.5" unfolding double_300_612 by simp
  finally show ?thesis unfolding fit_loaded_scale .
qed

text \<open>
  C2, amended. \<open>zoomIn\<close> sets the scale to \<open>min (scale + 0.25) 5\<close> and \<open>zoomOut\<close>
  to \<open>max (scale - 0.25) 0.5\<close>, and every sequence of events without \<open>fitToPage\<close>
  that starts with the scale in \<open>[0.5, 5]\<close> (as the initial state does) keeps it there.
  \<open>fitToPage\<close> is not clamped.
\<close>

theorem zoom_keeps_scale_in_range:
  assumes "0.5 \<le> scale s" and "scale s \<le> 5" and "FitToPage \<notin> set evs"
  shows "0.5 \<le> scale (run_events J evs s) \<and> scale (run_events J evs s) \<le> 5
    \<and> scale (zoomIn s) = min (scale s + 0.25) 5
    \<and> scale (zoomOut s) = max (scale s - 0.25) 0.5"
proof -
  have "scale_in_range s" using assms(1,2) by (simp add: scale_in_range_def)
  from scale_run [OF assms(3) this, of J] show ?thesis
    by (simp add: scale_in_range_def zoomIn_def zoomOut_def)
qed

text \<open>
  From the initial state: after loading, three steps out stop at 0.5 and one step in gives
  0.75.
\<close>

theorem zoom_keeps_scale_in_range_witness:
  "0.5 \<le> scale initial_state \<and> scale initial_state \<le> 5
   \<and> FitToPage \<notin> set [Layout (300, 842), LoadBegin, Loaded letter_doc, ZoomOut, ZoomOut, ZoomOut, ZoomIn]
   \<and> scale (run_events plain_json
        [Layout (300, 842), LoadBegin, Loaded letter_doc, ZoomOut, ZoomOut, ZoomOut, ZoomIn]
        initial_state) = 0.75"
  using zoom_keeps_scale_in_range
    [of initial_state
        "[Layout (300, 842), LoadBegin, Loaded letter_doc, ZoomOut, ZoomOut, ZoomOut, ZoomIn]"
        plain_json]
  by (simp add: run_events_def initial_state_def letter_doc_def loadPDF_begin_def
      loadPDF_request_def loadPDF_loaded_def zoomIn_def zoomOut_def)







subsection \<open>Upload\<close>

lemma handleFileChange_pdf:
  assumes "files = Some (f # fs)" and "file_type f = ''application/pdf''"
  shows "pageNotes (handleFileChange files s) = Map.empty
    \<and> currentNote (handleFileChange files s) = ''''
    \<and> sessionStorage (handleFileChange files s) ''pdfNotes'' = None
    \<and> (\<forall>k. k \<noteq> ''pdfNotes'' \<longrightarrow>
          sessionStorage (handleFileChange files s) k = sessionStorage s k)
    \<and> pageNum (handleFileChange files s) = 1
    \<and> panPosition (handleFileChange files s) = (0, 0)
    \<and> error (handleFileChange files s) = None
    \<and> pdfDoc (handleFileChange files s) = None
    \<and> pdfFile (handleFileChange files s) = Some f
    \<and> fileName (handleFileChange files s) = file_name f
    \<and> pdfLoadSource (handleFileChange files s) = Some SourceFile
    \<and> isPageRendering (handleFileChange files s) = isPageRendering s"
  using assms by (simp add: handleFileChange_def)

lemma upload_waits_for_render:
  assumes "files = Some (f # fs)" and "file_type f = ''application/pdf''"
  shows "loadPDF_request (handleFileChange files s)
         = (if isPageRendering s then None else Some (LoadFile f))"
  using assms by (simp add: handleFileChange_def loadPDF_request_def)

lemma uploaded_during_render_eq:
  "uploaded_during_render =
     loaded_view\<lparr> isPageRendering := True, isLoading := True,
        pdfFile := Some report_pdf, fileName := ''report.pdf'', pageNum := 1,
        panPosition := (0, 0), error := None, pdfLoadSource := Some SourceFile,
        isEditingPage := False, pageNotes := Map.empty, currentNote := [],
        sessionStorage := (sessionStorage loaded_view)(''pdfNotes'' := None),
        pdfDoc := None \<rparr>"
  by (simp add: uploaded_during_render_def renderPage_begin_def handleFileChange_def
      report_pdf_def loaded_view_def run_events_def initial_state_def letter_doc_def
      loadPDF_begin_def loadPDF_request_def loadPDF_loaded_def)

lemma render_mark_stays:
  assumes "render_mark_stuck s" and "\<forall>pdf. ev \<noteq> Loaded pdf"
  shows "render_mark_stuck (handle J ev s) \<and> loadPDF_request (handle J ev s) = None"
proof -
  have "render_mark_stuck (handle J ev s)"
  proof (cases ev)
    case (FileChange files)
    then show ?thesis using assms(1)
      by (auto simp: render_mark_stuck_def handleFileChange_def split: option.splits list.splits)
  next
    case SubmitPageChange
    then show ?thesis using assms(1)
      by (simp add: render_mark_stuck_def submitPageChange_def goToPage_def split: option.splits)
  next
    case LoadBegin
    then show ?thesis using assms(1)
      by (simp add: render_mark_stuck_def loadPDF_begin_def loadPDF_request_def)
  next
    case (Loaded pdf)
    with assms(2) show ?thesis by simp
  qed (use assms(1) in \<open>simp_all add: render_mark_stuck_def goToNextPage_def goToPrevPage_def
        goToPage_def handlePageInputChange_def cancelPageEdit_def zoomIn_def zoomOut_def
        fitToPage_def handleMouseDown_def handleMouseMove_def handleMouseUp_def
        handleNoteChange_def\<close>)
  then show ?thesis by (simp add: render_mark_stuck_def loadPDF_request_def)
qed

lemma render_mark_stuck_effects:
  assumes "render_mark_stuck s"
  shows "loadPDF_begin s = s \<and> renderPage_begin s = s \<and> renderPage_finish True s = s
    \<and> renderPage_catch True e s = s \<and> loadPDF_loaded True pdf s = s"
  using assms
  by (simp add: render_mark_stuck_def loadPDF_begin_def loadPDF_request_def renderPage_begin_def
      renderPage_finish_def renderPage_catch_def loadPDF_loaded_def)

lemma render_mark_stays_run:
  "render_mark_stuck s \<Longrightarrow> \<forall>pdf. Loaded pdf \<notin> set evs \<Longrightarrow>
   render_mark_stuck (run_events J evs s) \<and> loadPDF_request (run_events J evs s) = None"
proof (induction evs arbitrary: s)
  case Nil
  then show ?case by (simp add: run_events_def render_mark_stuck_def loadPDF_request_def)
next
  case (Cons ev evs)
  from Cons.prems(2) have a: "\<forall>pdf. ev \<noteq> Loaded pdf" and b: "\<forall>pdf. Loaded pdf \<notin> set evs"
    by auto
  from render_mark_stays [OF Cons.prems(1) a, of J]
  have "render_mark_stuck (handle J ev s)" by simp
  from Cons.IH [OF this b] show ?case by (simp add: run_events_def)
qed

lemma uploaded_during_render_stuck: "render_mark_stuck uploaded_during_render"
  by (simp add: render_mark_stuck_def uploaded_during_render_eq)

text \<open>
  C6. The claim is that an upload of a PDF clears the notes, resets the page, the pan offset
  and the error, and drops the document handle so that the new file is loaded in its place.
  The handler makes the resets (\<open>handleFileChange_pdf\<close>), but it leaves the mark
  \<open>isPageRendering\<close> as it is, and \<^verbatim>\<open>loadPDF\<close> returns at once while the mark is set
  (\<open>upload_waits_for_render\<close>). When the file is uploaded while page 1 is being rendered,
  the render run is cancelled by the change of the document, and a cancelled run clears
  the mark neither at its end nor in its \<^verbatim>\<open>catch\<close>; the next render run returns because
  there is no document. So the mark stays (\<open>render_mark_stays_run\<close>), the steps of the
  effects leave the state as it is, and the file is not loaded.
\<close>

theorem upload_during_render_is_not_loaded:
  "isPageRendering (renderPage_begin loaded_view)
   \<and> pageNotes uploaded_during_render = Map.empty
   \<and> pageNum uploaded_during_render = 1
   \<and> pdfDoc uploaded_during_render = None
   \<and> pdfFile uploaded_during_render = Some report_pdf
   \<and> isPageRendering uploaded_during_render
   \<and> loadPDF_request uploaded_during_render = None
   \<and> loadPDF_begin uploaded_during_render = uploaded_during_render
   \<and> renderPage_begin uploaded_during_render = uploaded_during_render
   \<and> renderPage_finish True uploaded_during_render = uploaded_during_render
   \<and> renderPage_catch True (JsError ''RenderingCancelledException'' ''Rendering cancelled'')
         uploaded_during_render = uploaded_during_render"
proof -
  have r: "isPageRendering (renderPage_begin loaded_view)"
    by (simp add: renderPage_begin_def loaded_view_def run_events_def initial_state_def
        loadPDF_begin_def loadPDF_request_def loadPDF_loaded_def)
  have u: "pageNotes uploaded_during_render = Map.empty" "pageNum uploaded_during_render = 1"
    "pdfDoc uploaded_during_render = None" "pdfFile uploaded_during_render = Some report_pdf"
    "isPageRendering uploaded_during_render"
    by (simp_all add: uploaded_during_render_eq)
  have q: "loadPDF_request uploaded_during_render = None"
    using u by (simp add: loadPDF_request_def)
  have b: "loadPDF_begin uploaded_during_render = uploaded_during_render"
    using q by (simp add: loadPDF_begin_def)
  have g: "renderPage_begin uploaded_during_render = uploaded_during_render"
    using u by (simp add: renderPage_begin_def)
  have f: "renderPage_finish True uploaded_during_render = uploaded_during_render"
    by (simp add: renderPage_finish_def)
  have c: "renderPage_catch True (JsError ''RenderingCancelledException'' ''Rendering cancelled'')
         uploaded_during_render = uploaded_during_render"
    by (simp add: renderPage_catch_def)
  from r u q b g f c show ?thesis by blast
qed

text \<open>
  C10. \<open>handleFileChange\<close> with a first file of any other type sets the error to
  \<^verbatim>\<open>Please select a valid PDF file\<close> and changes nothing else: the state after the
  event is the state before it with that one field replaced.
\<close>

theorem rejected_upload_only_sets_error:
  assumes "files = Some (f # fs)" and "file_type f \<noteq> ''application/pdf''"
  shows "handleFileChange files s = s\<lparr> error := Some ''Please select a valid PDF file'' \<rparr>"
  using assms by (simp add: handleFileChange_def)

text \<open>A PNG image offered to the loaded viewer.\<close>

theorem rejected_upload_only_sets_error_witness:
  "Some [\<lparr> file_name = ''photo.png'', file_type = ''image/png'' \<rparr>]
     = Some (\<lparr> file_name = ''photo.png'', file_type = ''image/png'' \<rparr> # [])
   \<and> file_type \<lparr> file_name = ''photo.png'', file_type = ''image/png'' \<rparr> \<noteq> ''application/pdf''
   \<and> handleFileChange (Some [\<lparr> file_name = ''photo.png'', file_type = ''image/png'' \<rparr>]) loaded_view
       = loaded_view\<lparr> error := Some ''Please select a valid PDF file'' \<rparr>"
  using rejected_upload_only_sets_error
    [of "Some [\<lparr> file_name = ''photo.png'', file_type = ''image/png'' \<rparr>]"
        "\<lparr> file_name = ''photo.png'', file_type = ''image/png'' \<rparr>" "[]" loaded_view]
  by simp

subsection \<open>Pan offset at the start of a render\<close>

text \<open>
  C7. With a document loaded and a render task stored in the ref, the start of
  \<^verbatim>\<open>renderPage\<close> (before the page is requested) resets the pan offset to \<open>(0, 0)\<close>
  when the current page differs from the page recorded on the stored task, and leaves the
  pan offset as it is when the page is the recorded one; so the re-run after \<open>zoomIn\<close> or
  \<open>zoomOut\<close>, which change the scale only, keeps the pan offset.
\<close>

theorem pan_reset_on_page_change_only:
  assumes "pdfDoc s = Some doc" and "renderTaskRef s = Some task"
  shows "(pageNumber task \<noteq> Some (pageNum s) \<longrightarrow> panPosition (renderPage_begin s) = (0, 0))
    \<and> (pageNumber task = Some (pageNum s)
          \<longrightarrow> panPosition (renderPage_begin s) = panPosition s
            \<and> panPosition (renderPage_begin (zoomIn s)) = panPosition s
            \<and> panPosition (renderPage_begin (zoomOut s)) = panPosition s)"
  using assms by (auto simp: renderPage_begin_def zoomIn_def zoomOut_def Let_def)

text \<open>
  Page 1 has been rendered and the view is panned by \<open>(15, -40)\<close>: going to page 2
  resets the offset, zooming in keeps it.
\<close>

theorem pan_reset_on_page_change_only_witness:
  "pdfDoc (loaded_view\<lparr> panPosition := (15, -40), scale := 2,
      renderTaskRef := Some \<lparr> task_promise = Fulfilled, pageNumber = Some 1 \<rparr> \<rparr>) = Some letter_doc
   \<and> panPosition (renderPage_begin (goToNextPage (loaded_view\<lparr> panPosition := (15, -40), scale := 2,
      renderTaskRef := Some \<lparr> task_promise = Fulfilled, pageNumber = Some 1 \<rparr> \<rparr>))) = (0, 0)
   \<and> panPosition (renderPage_begin (zoomIn (loaded_view\<lparr> panPosition := (15, -40), scale := 2,
      renderTaskRef := Some \<lparr> task_promise = Fulfilled, pageNumber = Some 1 \<rparr> \<rparr>))) = (15, -40)"
  using pan_reset_on_page_change_only
    [of "loaded_view\<lparr> panPosition := (15, -40), scale := 2,
      renderTaskRef := Some \<lparr> task_promise = Fulfilled, pageNumber = Some 1 \<rparr> \<rparr>" letter_doc
      "\<lparr> task_promise = Fulfilled, pageNumber = Some 1 \<rparr>"]
    pan_reset_on_page_change_only
    [of "goToNextPage (loaded_view\<lparr> panPosition := (15, -40), scale := 2,
      renderTaskRef := Some \<lparr> task_promise = Fulfilled, pageNumber = Some 1 \<rparr> \<rparr>)" letter_doc
      "\<lparr> task_promise = Fulfilled, pageNumber = Some 1 \<rparr>"]
  by (simp add: loaded_view_def run_events_def initial_state_def
      loadPDF_begin_def loadPDF_request_def loadPDF_loaded_def goToNextPage_def numPagesOr1_def
      letter_doc_def)

subsection \<open>Notes\<close>

text \<open>
  C8. \<open>MAX_NOTE_LENGTH\<close> is 10000. \<open>handleNoteChange\<close> with a text of at most that
  length makes it the current note and stores the updated note structure under the current
  page; with a longer text it leaves the whole state, and so the current note and the stored
  notes, unchanged. A current note within the limit stays within the limit.
\<close>

theorem note_length_is_bounded:
  shows "MAX_NOTE_LENGTH = 10000
    \<and> (length newText \<le> MAX_NOTE_LENGTH \<longrightarrow>
          currentNote (handleNoteChange J newText s) = newText
          \<and> pageNotes (handleNoteChange J newText s)
              = (pageNotes s)(pageNum s \<mapsto> updateNoteJson J s newText))
    \<and> (length newText > MAX_NOTE_LENGTH \<longrightarrow> handleNoteChange J newText s = s)
    \<and> (length (currentNote s) \<le> MAX_NOTE_LENGTH \<longrightarrow>
          length (currentNote (handleNoteChange J newText s)) \<le> MAX_NOTE_LENGTH)"
  by (simp add: handleNoteChange_def MAX_NOTE_LENGTH_def)

text \<open>A text of 10001 characters is refused; \<open>hello\<close> is accepted.\<close>

theorem note_length_is_bounded_witness:
  "length (replicate 10001 CHR ''x'') > MAX_NOTE_LENGTH
   \<and> handleNoteChange plain_json (replicate 10001 CHR ''x'') loaded_view = loaded_view
   \<and> length ''hello'' \<le> MAX_NOTE_LENGTH
   \<and> currentNote (handleNoteChange plain_json ''hello'' loaded_view) = ''hello''"
proof -
  have long: "length (replicate 10001 CHR ''x'') > MAX_NOTE_LENGTH"
    unfolding MAX_NOTE_LENGTH_def length_replicate by simp
  have short: "length ''hello'' \<le> MAX_NOTE_LENGTH"
    unfolding MAX_NOTE_LENGTH_def by simp
  from long note_length_is_bounded [of "replicate 10001 CHR ''x''" plain_json loaded_view]
  have a: "handleNoteChange plain_json (replicate 10001 CHR ''x'') loaded_view = loaded_view"
    by blast
  from short note_length_is_bounded [of "''hello''" plain_json loaded_view]
  have b: "currentNote (handleNoteChange plain_json ''hello'' loaded_view) = ''hello''"
    by blast
  from long short a b show ?thesis by blast
qed

subsection \<open>Failures\<close>

text \<open>
  An \<^verbatim>\<open>Error\<close> with an empty message sets the error state to the empty string, and the
  banner is not shown for it.
\<close>

theorem empty_message_hides_banner:
  "error (loadPDF_catch False (JsError ''Error'' '''') loaded_view) = Some ''''
   \<and> errorBanner (loadPDF_catch False (JsError ''Error'' '''') loaded_view) = None
   \<and> errorBanner (renderPage_catch False (JsError ''Error'' '''') loaded_view) = None"
  by (simp add: loadPDF_catch_def renderPage_catch_def errorBanner_def errorMessage_def)

text \<open>
  C9, amended. When loading or rendering fails and the effect run has not been cancelled,
  the error state is the message of the thrown \<^verbatim>\<open>Error\<close>, or the fixed text
  \<^verbatim>\<open>Failed to load PDF\<close> or \<^verbatim>\<open>Failed to render PDF\<close> for any other thrown value;
  the loading flag is cleared (and the rendering flag, after a failed render); and the
  banner shows \<^verbatim>\<open>Error: \<close> followed by the error text whenever that text is not empty.
\<close>

theorem failure_sets_error_state:
  assumes "\<not> cancelled"
  shows "error (loadPDF_catch cancelled e s)
           = Some (case e of JsError nm msg \<Rightarrow> msg | JsOther \<Rightarrow> ''Failed to load PDF'')
    \<and> \<not> isLoading (loadPDF_catch cancelled e s)
    \<and> error (renderPage_catch cancelled e s)
           = Some (case e of JsError nm msg \<Rightarrow> msg | JsOther \<Rightarrow> ''Failed to render PDF'')
    \<and> \<not> isLoading (renderPage_catch cancelled e s)
    \<and> \<not> isPageRendering (renderPage_catch cancelled e s)
    \<and> (\<forall>msg. error (loadPDF_catch cancelled e s) = Some msg \<and> msg \<noteq> ''''
          \<longrightarrow> errorBanner (loadPDF_catch cancelled e s) = Some (''Error: '' @ msg))
    \<and> (\<forall>msg. error (renderPage_catch cancelled e s) = Some msg \<and> msg \<noteq> ''''
          \<longrightarrow> errorBanner (renderPage_catch cancelled e s) = Some (''Error: '' @ msg))"
  using assms
  by (simp add: loadPDF_catch_def renderPage_catch_def errorBanner_def errorMessage_def)

text \<open>A rejected document and a render that throws a value that is no \<^verbatim>\<open>Error\<close>.\<close>

theorem failure_sets_error_state_witness:
  "\<not> False
   \<and> error (loadPDF_catch False (JsError ''InvalidPDFException'' ''Invalid PDF structure.'') loaded_view)
       = Some ''Invalid PDF structure.''
   \<and> errorBanner (loadPDF_catch False (JsError ''InvalidPDFException'' ''Invalid PDF structure.'') loaded_view)
       = Some ''Error: Invalid PDF structure.''
   \<and> errorBanner (renderPage_catch False JsOther loaded_view) = Some ''Error: Failed to render PDF''"
  using failure_sets_error_state
    [of False "JsError ''InvalidPDFException'' ''Invalid PDF structure.''" loaded_view]
    failure_sets_error_state [of False JsOther loaded_view]
  by simp

subsection \<open>Notes across navigation\<close>

lemma absent_cases:
  "pageChangeEffect_absent J s = s\<lparr> currentNote := [] \<rparr>
   \<or> pageChangeEffect_absent J s =
        s\<lparr> currentNote := [], pageNotes := (pageNotes s)(pageNum s \<mapsto> updateNoteJson J s []) \<rparr>"
  by (simp add: pageChangeEffect_absent_def split: list.splits)

lemma effect_cases:
  "(\<exists>c. pageChangeEffect J s = s\<lparr> currentNote := c \<rparr>)
   \<or> pageChangeEffect J s =
        s\<lparr> currentNote := [], pageNotes := (pageNotes s)(pageNum s \<mapsto> updateNoteJson J s []) \<rparr>"
proof (cases "pageNotes s (pageNum s)")
  case None
  then have "pageChangeEffect J s = pageChangeEffect_absent J s"
    by (simp add: pageChangeEffect_def)
  with absent_cases [of J s] show ?thesis by auto
next
  case (Some str)
  show ?thesis
  proof (cases "str = []")
    case True
    with Some have "pageChangeEffect J s = pageChangeEffect_absent J s"
      by (simp add: pageChangeEffect_def)
    with absent_cases [of J s] show ?thesis by auto
  next
    case False
    with Some have "\<exists>c. pageChangeEffect J s = s\<lparr> currentNote := c \<rparr>"
      by (auto simp: pageChangeEffect_def split: parsed.splits option.splits)
    then show ?thesis by blast
  qed
qed

lemma effect_pageNum [simp]: "pageNum (pageChangeEffect J s) = pageNum s"
  using effect_cases [of J s] by auto

lemma effect_numPages [simp]: "numPages (pageChangeEffect J s) = numPages s"
  using effect_cases [of J s] by auto

lemma effect_other_notes:
  "r \<noteq> pageNum s \<Longrightarrow> pageNotes (pageChangeEffect J s) r = pageNotes s r"
  using effect_cases [of J s] by auto

lemma effects_pageNum [simp]: "pageNum ((pageChangeEffect J ^^ n) s) = pageNum s"
  by (induction n) simp_all

lemma effects_numPages [simp]: "numPages ((pageChangeEffect J ^^ n) s) = numPages s"
  by (induction n) simp_all

lemma effects_other_notes:
  "r \<noteq> pageNum s \<Longrightarrow> pageNotes ((pageChangeEffect J ^^ n) s) r = pageNotes s r"
  by (induction n) (simp_all add: effect_other_notes)

lemma find_setPageText:
  "\<exists>pn. find (\<lambda>x. number x = n) (setPageText n t ps) = Some pn \<and> note_text pn = t"
  by (induction ps) auto

lemma effect_shows_text:
  assumes "codec_round_trip J" and "shows_text J s (pageNum s) t"
  shows "pageChangeEffect J s = s\<lparr> currentNote := t \<rparr>"
proof -
  from assms(2) obtain d pn where
    st: "pageNotes s (pageNum s) = Some (JSON_stringify J d)"
    and f: "find (\<lambda>x. number x = pageNum s) (pages d) = Some pn" and t: "note_text pn = t"
    by (auto simp: shows_text_def)
  from assms(1) have p: "JSON_parse J (JSON_stringify J d) = Document d"
    and ne: "JSON_stringify J d \<noteq> ''''"
    by (simp_all add: codec_round_trip_def)
  show ?thesis using st f t p ne by (simp add: pageChangeEffect_def)
qed

lemma effects_shows_text:
  assumes "codec_round_trip J" and "shows_text J s (pageNum s) t"
  shows "(pageChangeEffect J ^^ Suc n) s = s\<lparr> currentNote := t \<rparr>"
proof (induction n)
  case 0
  then show ?case using effect_shows_text [OF assms] by simp
next
  case (Suc n)
  have "shows_text J (s\<lparr> currentNote := t \<rparr>) (pageNum (s\<lparr> currentNote := t \<rparr>)) t"
    using assms(2) by (simp add: shows_text_def)
  from effect_shows_text [OF assms(1) this] Suc show ?case by simp
qed

lemma updateNoteJson_prints:
  assumes "note_parses J s (pageNum s)"
  shows "\<exists>d::DocumentNotes. updateNoteJson J s t =
      JSON_stringify J \<lparr> pages = setPageText (pageNum s) t (pages d),
                          total_pages = max (total_pages d) (numPagesOr1 s) \<rparr>"
proof (cases "pageNotes s (pageNum s)")
  case None
  show ?thesis
    by (rule exI [of _ "getEmptyNotes (numPagesOr1 s) None"]) (simp add: updateNoteJson_def None)
next
  case (Some str)
  show ?thesis
  proof (cases "str = []")
    case True
    show ?thesis
      by (rule exI [of _ "getEmptyNotes (numPagesOr1 s) None"])
         (simp add: updateNoteJson_def Some True)
  next
    case False
    show ?thesis
    proof (cases "JSON_parse J str")
      case Throws
      show ?thesis
        by (rule exI [of _ "getEmptyNotes (numPagesOr1 s) None"])
           (simp add: updateNoteJson_def Some False Throws)
    next
      case NotDocument
      with Some assms show ?thesis by (simp add: note_parses_def)
    next
      case (Document d)
      show ?thesis
        by (rule exI [of _ d]) (simp add: updateNoteJson_def Some False Document)
    qed
  qed
qed

lemma handleNoteChange_shows_text:
  assumes "length t \<le> MAX_NOTE_LENGTH" and "note_parses J s (pageNum s)"
  shows "shows_text J (handleNoteChange J t s) (pageNum s) t
    \<and> pageNum (handleNoteChange J t s) = pageNum s
    \<and> numPages (handleNoteChange J t s) = numPages s
    \<and> currentNote (handleNoteChange J t s) = t"
proof -
  from updateNoteJson_prints [OF assms(2), of t] obtain d :: DocumentNotes
    where u: "updateNoteJson J s t =
      JSON_stringify J \<lparr> pages = setPageText (pageNum s) t (pages d),
                          total_pages = max (total_pages d) (numPagesOr1 s) \<rparr>"
    by blast
  from find_setPageText [of "pageNum s" t "pages d"] obtain pn where
    "find (\<lambda>x. number x = pageNum s) (setPageText (pageNum s) t (pages d)) = Some pn"
    "note_text pn = t" by blast
  then show ?thesis using assms(1) u
    by (auto simp: handleNoteChange_def shows_text_def)
qed

lemma navigation_keeps_notes:
  "is_navigation ev \<Longrightarrow> pageNotes (handle J ev s) = pageNotes s"
  by (cases ev)
     (auto simp: is_navigation_def goToNextPage_def goToPrevPage_def goToPage_def
        submitPageChange_def split: option.splits)

lemma printed_parses:
  assumes "codec_round_trip J" and "notes_printed J s"
  shows "note_parses J s p"
proof (cases "pageNotes s p")
  case None
  then show ?thesis by (simp add: note_parses_def)
next
  case (Some str)
  with assms(2) obtain d where "str = JSON_stringify J d" by (auto simp: notes_printed_def)
  with assms(1) Some show ?thesis by (simp add: note_parses_def codec_round_trip_def)
qed

lemma printed_update:
  assumes "codec_round_trip J" and "notes_printed J s"
  shows "notes_printed J (s\<lparr> currentNote := c,
           pageNotes := (pageNotes s)(pageNum s \<mapsto> updateNoteJson J s t) \<rparr>)"
proof -
  from updateNoteJson_prints [OF printed_parses [OF assms], of t]
  obtain d :: DocumentNotes where "updateNoteJson J s t =
      JSON_stringify J \<lparr> pages = setPageText (pageNum s) t (pages d),
                          total_pages = max (total_pages d) (numPagesOr1 s) \<rparr>"
    by blast
  then show ?thesis using assms(2) by (auto simp: notes_printed_def)
qed

lemma printed_effect:
  assumes "codec_round_trip J" and "notes_printed J s"
  shows "notes_printed J (pageChangeEffect J s)"
proof -
  have "notes_printed J (s\<lparr> currentNote := c \<rparr>)" for c
    using assms(2) by (simp add: notes_printed_def)
  with effect_cases [of J s] printed_update [OF assms, of "[]" "[]"] show ?thesis by auto
qed

lemma fitToPage_notes: "pageNotes (fitToPage s) = pageNotes s"
proof (cases "pdfDoc s")
  case None
  then show ?thesis by (simp add: fitToPage_def)
next
  case (Some doc)
  note doc = this
  show ?thesis
  proof (cases "containerRef s")
    case None
    with doc show ?thesis by (simp add: fitToPage_def)
  next
    case (Some c)
    obtain cw ch where c: "c = (cw, ch)" by (cases c)
    show ?thesis
    proof (cases "doc_getPage doc (pageNum s)")
      case (Inl e)
      with doc Some c show ?thesis by (simp add: fitToPage_def)
    next
      case (Inr v)
      obtain w h where "v = (w, h)" by (cases v)
      with Inr doc Some c show ?thesis by (simp add: fitToPage_def Let_def)
    qed
  qed
qed

lemma loadPDF_begin_notes: "pageNotes (loadPDF_begin s) = pageNotes s"
  by (simp add: loadPDF_begin_def split: option.splits load_request.splits)

lemma printed_event:
  assumes "codec_round_trip J" and "notes_printed J s"
  shows "notes_printed J (handle J ev s)"
proof (cases ev)
  case (NoteChange t)
  then show ?thesis
    using printed_update [OF assms, of t t] assms(2) by (simp add: handleNoteChange_def)
next
  case (FileChange files)
  then show ?thesis using assms(2)
    by (auto simp: handleFileChange_def notes_printed_def split: option.splits list.splits)
next
  case FitToPage
  then show ?thesis using assms(2) by (simp add: notes_printed_def fitToPage_notes)
next
  case LoadBegin
  then show ?thesis using assms(2) by (simp add: notes_printed_def loadPDF_begin_notes)
next
  case SubmitPageChange
  then show ?thesis using assms(2)
    by (simp add: notes_printed_def submitPageChange_def goToPage_def split: option.splits)
qed (use assms(2) in \<open>simp_all add: notes_printed_def goToNextPage_def goToPrevPage_def
        goToPage_def handlePageInputChange_def cancelPageEdit_def zoomIn_def zoomOut_def
        handleMouseDown_def handleMouseMove_def handleMouseUp_def loadPDF_loaded_def\<close>)

lemma printed_render: "notes_printed J s \<Longrightarrow> notes_printed J (renderPage_begin s)"
  by (auto simp: notes_printed_def renderPage_begin_def Let_def split: option.splits)

lemma reachable_printed:
  assumes "codec_round_trip J" and "reachable J s"
  shows "notes_printed J s"
  using assms(2)
proof (induction rule: reachable.induct)
  case reach_initial
  show ?case by (simp add: notes_printed_def initial_state_def)
next
  case (reach_event s ev)
  then show ?case using printed_event [OF assms(1)] by blast
next
  case (reach_notes_effect s)
  then show ?case using printed_effect [OF assms(1)] by blast
next
  case (reach_render s)
  then show ?case using printed_render by blast
qed

lemma reachable_note_parses:
  "codec_round_trip J \<Longrightarrow> reachable J s \<Longrightarrow> note_parses J s p"
  by (rule printed_parses [OF _ reachable_printed])

text \<open>
  C5. Let the codec round-trip, let \<open>t\<close> be a text within the length limit written
  on the current page \<open>p\<close>, and let \<open>q\<close> be another page of the document. After the
  write, going to \<open>q\<close> and going back to \<open>p\<close>, with any number of runs of the notes
  effect after the write and at least one after each page change, the displayed note is
  \<open>t\<close> again and the stored note of \<open>p\<close> is the one that was written. The stored note
  that \<open>p\<close> had before the write must not be JSON text of another shape; by
  \<open>reachable_note_parses\<close> this holds in every state the component reaches by itself.
  Moreover a navigation operation followed by any number of runs of the notes effect leaves
  the stored note of every page other than the page navigated to as it was.
\<close>

theorem notes_survive_navigation:
  assumes "codec_round_trip J"
    and "length t \<le> MAX_NOTE_LENGTH"
    and "pageNum s = p" and "note_parses J s p"
    and "1 \<le> p" and "p \<le> numPagesOr1 s"
    and "1 \<le> q" and "q \<le> numPagesOr1 s" and "q \<noteq> p"
  shows "(let written = (pageChangeEffect J ^^ i) (handleNoteChange J t s);
              away = (pageChangeEffect J ^^ Suc j) (goToPage q written);
              home = (pageChangeEffect J ^^ Suc k) (goToPage p away)
          in pageNum away = q \<and> pageNum home = p \<and> currentNote home = t
             \<and> pageNotes home p = pageNotes written p)
    \<and> (\<forall>ev st r n. is_navigation ev \<and> r \<noteq> pageNum (handle J ev st)
          \<longrightarrow> pageNotes ((pageChangeEffect J ^^ n) (handle J ev st)) r = pageNotes st r)"
proof -
  let ?w0 = "handleNoteChange J t s"
  let ?written = "(pageChangeEffect J ^^ i) ?w0"
  let ?away = "(pageChangeEffect J ^^ Suc j) (goToPage q ?written)"
  let ?home = "(pageChangeEffect J ^^ Suc k) (goToPage p ?away)"
  from handleNoteChange_shows_text [OF assms(2), of J s] assms(3,4)
  have w0: "shows_text J ?w0 p t" and w0p: "pageNum ?w0 = p"
    and w0n: "numPages ?w0 = numPages s" and w0c: "currentNote ?w0 = t"
    by simp_all
  have written: "?written = ?w0"
  proof (cases i)
    case 0
    then show ?thesis by simp
  next
    case (Suc i')
    from w0 w0p have "shows_text J ?w0 (pageNum ?w0) t" by simp
    from effects_shows_text [OF assms(1) this, of i'] w0c Suc show ?thesis by simp
  qed
  have total: "numPagesOr1 ?w0 = numPagesOr1 s" using w0n by (simp add: numPagesOr1_def)
  have gq: "goToPage q ?w0 = ?w0\<lparr> pageNum := q \<rparr>"
    using assms(7,8) total by (simp add: goToPage_def)
  have away_p: "pageNum ?away = q" using written gq by simp
  have away_n: "numPagesOr1 ?away = numPagesOr1 s"
    using written gq w0n by (simp add: numPagesOr1_def)
  have away_notes: "pageNotes ?away p = pageNotes ?w0 p"
    using effects_other_notes [where r = p and s = "goToPage q ?w0" and J = J and n = "Suc j"] assms(9) written gq by simp
  have gp: "goToPage p ?away = ?away\<lparr> pageNum := p \<rparr>"
    using assms(5,6) away_n by (simp add: goToPage_def)
  have "shows_text J (goToPage p ?away) (pageNum (goToPage p ?away)) t"
    using w0 away_notes gp by (simp add: shows_text_def)
  from effects_shows_text [OF assms(1) this, of k]
  have returned: "?home = (goToPage p ?away)\<lparr> currentNote := t \<rparr>" .
  have first: "pageNum ?away = q \<and> pageNum ?home = p \<and> currentNote ?home = t
     \<and> pageNotes ?home p = pageNotes ?written p"
    using away_p returned gp away_notes written by simp
  have second: "\<forall>ev st r n. is_navigation ev \<and> r \<noteq> pageNum (handle J ev st)
          \<longrightarrow> pageNotes ((pageChangeEffect J ^^ n) (handle J ev st)) r = pageNotes st r"
    using effects_other_notes navigation_keeps_notes by metis
  from first second show ?thesis by (simp add: Let_def)
qed

text \<open>
  On the loaded three-page document: the note is written on page 2, the user goes to page
  3 and back.
\<close>

theorem notes_survive_navigation_witness:
  "codec_round_trip plain_json \<and> length ''remember this'' \<le> MAX_NOTE_LENGTH
   \<and> pageNum (goToPage 2 loaded_view) = 2 \<and> note_parses plain_json (goToPage 2 loaded_view) 2
   \<and> (2::int) \<le> numPagesOr1 (goToPage 2 loaded_view)
   \<and> (3::int) \<le> numPagesOr1 (goToPage 2 loaded_view)
   \<and> currentNote
        ((pageChangeEffect plain_json ^^ Suc 1)
           (goToPage 2
              ((pageChangeEffect plain_json ^^ Suc 1)
                 (goToPage 3
                    ((pageChangeEffect plain_json ^^ 1)
                       (handleNoteChange plain_json ''remember this'' (goToPage 2 loaded_view)))))))
       = ''remember this''"
proof -
  have len: "length ''remember this'' \<le> MAX_NOTE_LENGTH" by (simp add: MAX_NOTE_LENGTH_def)
  have st: "goToPage 2 loaded_view = loaded_view\<lparr> pageNum := 2 \<rparr>"
    by (simp add: goToPage_def loaded_view_def run_events_def initial_state_def letter_doc_def
        loadPDF_begin_def loadPDF_request_def loadPDF_loaded_def numPagesOr1_def)
  have total: "numPagesOr1 (goToPage 2 loaded_view) = 3"
    by (simp add: goToPage_def loaded_view_def run_events_def initial_state_def letter_doc_def
        loadPDF_begin_def loadPDF_request_def loadPDF_loaded_def numPagesOr1_def)
  have pn: "pageNum (goToPage 2 loaded_view) = 2" using st by simp
  have np: "note_parses plain_json (goToPage 2 loaded_view) 2"
    unfolding st
    by (simp add: note_parses_def loaded_view_def run_events_def initial_state_def
        loadPDF_begin_def loadPDF_request_def loadPDF_loaded_def)
  from notes_survive_navigation
    [where q = 3 and i = 1 and j = 1 and k = 1, OF plain_json_round_trip len pn np] total
  have "currentNote
        ((pageChangeEffect plain_json ^^ Suc 1)
           (goToPage 2
              ((pageChangeEffect plain_json ^^ Suc 1)
                 (goToPage 3
                    ((pageChangeEffect plain_json ^^ 1)
                       (handleNoteChange plain_json ''remember this'' (goToPage 2 loaded_view)))))))
       = ''remember this''"
    by (simp add: Let_def)
  with plain_json_round_trip len pn np total show ?thesis by simp
qed



end
